theory Spec2Isabelle
  imports Main
begin

section \<open>Values of the spreadsheet and of the question bank\<close>

text \<open>
  Strings are lists of code units below 256. A spreadsheet cell is absent, a number
  (integers only: fractional cells are outside this model), a string or a boolean.
  \<open>Num n\<close> is the double nearest to \<open>n\<close>.
\<close>

datatype cell = Absent | Num int | Str string | Bool bool

text \<open>JavaScript truthiness, as used by \<open>v || d\<close> and \<open>v ? a : b\<close>.\<close>

fun truthy :: "cell \<Rightarrow> bool" where
  "truthy Absent = False"
| "truthy (Num n) = (n \<noteq> 0)"
| "truthy (Str s) = (s \<noteq> [])"
| "truthy (Bool b) = b"

definition digit_char :: "nat \<Rightarrow> char" where
  "digit_char d = ''0123456789'' ! d"

text \<open>The decimal digits of an integer.\<close>

function show_pos :: "int \<Rightarrow> string" where
  "show_pos n =
     (if n < 10 then [digit_char (nat n)]
      else show_pos (n div 10) @ [digit_char (nat (n mod 10))])"
  by pat_completeness auto
termination
  by (relation "measure nat") auto

declare show_pos.simps [simp del]

definition show_int :: "int \<Rightarrow> string" where
  "show_int i = (if i < 0 then CHR ''-'' # show_pos (- i) else show_pos i)"

subsection \<open>Integers as doubles\<close>

text \<open>
  A JavaScript number is a double. An integer is written here as itself when it is a
  double, as every integer below \<open>2 ^ 53 = 9007199254740992\<close> in magnitude is;
  \<open>to_double\<close> gives the double nearest to an integer, the even one of two equally
  near, and stands \<open>2 ^ 1024\<close> and its negative for \<open>Infinity\<close> and \<open>-Infinity\<close>,
  which are above and below every double as these are and equal to none.
\<close>

function bitlen :: "int \<Rightarrow> nat" where
  "bitlen n = (if n \<le> 0 then 0 else Suc (bitlen (n div 2)))"
  by pat_completeness auto
termination
  by (relation "measure nat") auto

declare bitlen.simps [simp del]

definition round_pos :: "int \<Rightarrow> int" where
  "round_pos n =
     (if n < 9007199254740992 then n
      else
        (let sh = bitlen n - 53;
             q = n div 2 ^ sh;
             r = n mod 2 ^ sh;
             half = 2 ^ (sh - 1)
         in (if half < r \<or> (r = half \<and> odd q) then q + 1 else q) * 2 ^ sh))"

definition to_double :: "int \<Rightarrow> int" where
  "to_double i =
     (let r = round_pos \<bar>i\<bar> in
      if r < 9007199254740992 then (if i < 0 then - r else r)
      else if 2 ^ 1024 \<le> r then (if i < 0 then - (2 ^ 1024) else 2 ^ 1024)
      else (if i < 0 then - r else r))"

text \<open>
  \<open>Number::toString\<close> of an integer-valued double \<open>m\<close> from \<open>2 ^ 53\<close> on: the
  shortest digits \<open>s\<close> and the largest \<open>e\<close> with \<open>s * 10 ^ e\<close> read back as \<open>m\<close>,
  of two such \<open>s\<close> the nearer to \<open>m\<close> (the even one when equally near); in exponent
  notation when there are more than 21 digits before the point.
\<close>

definition cands :: "int \<Rightarrow> nat \<Rightarrow> int list" where
  "cands m e =
     filter (\<lambda>s. 0 < s \<and> round_pos (s * 10 ^ e) = m) [m div 10 ^ e, m div 10 ^ e + 1]"

definition best :: "int \<Rightarrow> nat \<Rightarrow> int" where
  "best m e =
     (case cands m e of
        [s] \<Rightarrow> s
      | [s, t] \<Rightarrow>
          (let ds = m - s * 10 ^ e; dt = t * 10 ^ e - m in
           if ds < dt then s else if dt < ds then t else if even s then s else t)
      | _ \<Rightarrow> m div 10 ^ e)"

definition shortest :: "int \<Rightarrow> int \<times> nat" where
  "shortest m =
     (let e = foldl (\<lambda>acc i. if cands m i \<noteq> [] then i else acc) 0
                [0..<Suc (length (show_pos m))]
      in (best m e, e))"

definition big_digits :: "int \<Rightarrow> string" where
  "big_digits m =
     (if 2 ^ 1024 \<le> m then ''Infinity''
      else
        (let (s, e) = shortest m;
             ds = show_pos s;
             n = length ds + e
         in if n \<le> 21 then ds @ replicate e (CHR ''0'')
            else (case ds of
                    [] \<Rightarrow> []
                  | c # cs \<Rightarrow> (if cs = [] then [c] else c # CHR ''.'' # cs))
                 @ ''e+'' @ show_pos (int n - 1)))"

text \<open>
  \<open>String(n)\<close> of the double nearest to an integer: its decimal digits below
  \<open>2 ^ 53\<close> in magnitude.
\<close>

definition Number_toString :: "int \<Rightarrow> string" where
  "Number_toString i =
     (let d = to_double i in
      if \<bar>d\<bar> < 9007199254740992 then show_int d
      else (if d < 0 then ''-'' else []) @ big_digits \<bar>d\<bar>)"

text \<open>\<open>String(v)\<close>.\<close>

fun js_String :: "cell \<Rightarrow> string" where
  "js_String Absent = ''undefined''"
| "js_String (Num n) = Number_toString n"
| "js_String (Str s) = s"
| "js_String (Bool b) = (if b then ''true'' else ''false'')"

text \<open>\<open>v || ''\<close>.\<close>

definition or_empty :: "cell \<Rightarrow> cell" where
  "or_empty v = (if truthy v then v else Str [])"

text \<open>White space and line terminators of ECMAScript within the code units below 256.\<close>

definition js_whitespace :: "char \<Rightarrow> bool" where
  "js_whitespace c = (c \<in> set [CHR 0x09, CHR 0x0A, CHR 0x0B, CHR 0x0C, CHR 0x0D, CHR 0x20, CHR 0xA0])"

definition trim :: "string \<Rightarrow> string" where
  "trim s = rev (dropWhile js_whitespace (rev (dropWhile js_whitespace s)))"

definition digit_val :: "char \<Rightarrow> nat option" where
  "digit_val c = map_of
     [(CHR ''0'', 0), (CHR ''1'', 1), (CHR ''2'', 2), (CHR ''3'', 3), (CHR ''4'', 4),
      (CHR ''5'', 5), (CHR ''6'', 6), (CHR ''7'', 7), (CHR ''8'', 8), (CHR ''9'', 9),
      (CHR ''a'', 10), (CHR ''b'', 11), (CHR ''c'', 12), (CHR ''d'', 13), (CHR ''e'', 14), (CHR ''f'', 15),
      (CHR ''A'', 10), (CHR ''B'', 11), (CHR ''C'', 12), (CHR ''D'', 13), (CHR ''E'', 14), (CHR ''F'', 15)] c"

definition is_digit :: "nat \<Rightarrow> char \<Rightarrow> bool" where
  "is_digit radix c = (case digit_val c of Some d \<Rightarrow> d < radix | None \<Rightarrow> False)"

definition digits_value :: "nat \<Rightarrow> string \<Rightarrow> int" where
  "digits_value radix ds =
     foldl (\<lambda>acc c. case digit_val c of Some d \<Rightarrow> acc * int radix + int d | None \<Rightarrow> acc) 0 ds"

text \<open>
  \<open>parseInt(s)\<close> with no radix argument: leading white space is skipped, a sign is read,
  a prefix \<open>0x\<close> or \<open>0X\<close> selects radix 16, and the longest run of digits is read; with
  no digit the result is NaN, here \<open>None\<close>. The integer read is rounded to a double,
  to \<open>Infinity\<close> when it is too large for one.
\<close>

definition parseInt :: "string \<Rightarrow> int option" where
  "parseInt str =
     (let s = dropWhile js_whitespace str;
          (sign, s1) = (case s of
                          [] \<Rightarrow> (1, s)
                        | c # r \<Rightarrow> if c = CHR ''-'' then (- 1, r)
                                  else if c = CHR ''+'' then (1, r) else (1, s));
          (radix, s2) = (case s1 of
                           a # b # r \<Rightarrow> if a = CHR ''0'' \<and> (b = CHR ''x'' \<or> b = CHR ''X'')
                                        then (16, r) else (10, s1)
                         | _ \<Rightarrow> (10, s1));
          ds = takeWhile (is_digit radix) s2
      in if ds = [] then None else Some (to_double (sign * digits_value radix ds)))"

text \<open>\<open>parseInt(s) || 0\<close>: NaN and zero both give 0.\<close>

definition parseInt_or0 :: "string \<Rightarrow> int" where
  "parseInt_or0 s = (case parseInt s of None \<Rightarrow> 0 | Some n \<Rightarrow> n)"

record question =
  qid :: nat
  unit :: int
  question :: cell
  btLevel :: string
  subjectCode :: cell
  subject :: cell
  branch :: cell
  regulation :: cell
  year :: cell
  semester :: cell
  month :: cell
  imageUrl :: string

section \<open>The random source\<close>

text \<open>
  \<open>Math.floor(Math.random() * n)\<close> is an index below \<open>n\<close>. The random source is the
  list of numbers still to be drawn; each draw takes the head, reduced modulo \<open>n\<close>. An
  exhausted source keeps giving 0. Every sequence of indices the program can draw is
  the behaviour of some such list.
\<close>

type_synonym rng = "nat list"

definition random_index :: "nat \<Rightarrow> rng \<Rightarrow> nat \<times> rng" where
  "random_index n g = (case g of [] \<Rightarrow> (0, []) | r # g' \<Rightarrow> (r mod n, g'))"

section \<open>Errors thrown by \<open>generateQuestions\<close>\<close>

datatype error =
    InsufficientBank
  | TypeError string
  | NoValidBTL
  | UnsupportedCase int "string list"
  | InvalidPaperType
  | NoRandomBTL
  | InsufficientRandom string
  | InsufficientBTL string nat int
  | FailedToPick string
  | UnitBelowMin int nat nat
  | NotExactlySix

text \<open>An array in a template literal is joined by commas.\<close>

fun join_comma :: "string list \<Rightarrow> string" where
  "join_comma [] = []"
| "join_comma [x] = x"
| "join_comma (x # y # ys) = x @ '','' @ join_comma (y # ys)"

fun message :: "error \<Rightarrow> string" where
  "message InsufficientBank =
     ''Insufficient questions in question bank. At least 6 questions are required.''"
| "message (TypeError m) = m"
| "message NoValidBTL = ''No valid BTL levels found in question bank''"
| "message (UnsupportedCase m ls) =
     ''Unsupported case: Max BTL = '' @ Number_toString m @ '' with multiple BTLs (''
     @ join_comma ls
     @ ''). Only Case i (max BTL = 6), Case ii (max BTL = 4), or Case iii (single BTL) are supported.''"
| "message InvalidPaperType = ''Invalid paper type''"
| "message NoRandomBTL = ''No questions available for BTL [L1, L5, L6] in required units''"
| "message (InsufficientRandom btl) =
     ''Insufficient questions for BTL '' @ btl @ '' in required units''"
| "message (InsufficientBTL lvl need found) =
     ''Insufficient questions for BTL '' @ lvl @ '' (need '' @ Number_toString (int need)
     @ '', found '' @ Number_toString found @ '') in required units''"
| "message (FailedToPick lvl) = ''Failed to pick BTL '' @ lvl @ '' despite availability''"
| "message (UnitBelowMin u c m) =
     ''Unit '' @ Number_toString u @ '' has '' @ Number_toString (int c)
     @ '' questions, needs at least '' @ Number_toString (int m)"
| "message NotExactlySix =
     ''Failed to select exactly 6 questions with required BTL and unit constraints''"

section \<open>Step 1: the availability index\<close>

text \<open>
  \<open>availableByUnitAndBTL[unit][btl]\<close> for a unit from 1 to 5: the questions of the bank
  with that unit and that label, in bank order. A label with no question has no entry,
  and every use below reads the length of a missing entry as 0.
\<close>

definition availableByUnitAndBTL :: "question list \<Rightarrow> int \<Rightarrow> string \<Rightarrow> question list" where
  "availableByUnitAndBTL bank u btl = filter (\<lambda>q. unit q = u \<and> btLevel q = btl) bank"

text \<open>
  The index of a unit is a plain object, so a label that names a property of
  \<open>Object.prototype\<close> already has a value there, which is not an array: the \<open>push\<close>
  at such a question throws a TypeError.
\<close>

definition proto_keys :: "string list" where
  "proto_keys = [''constructor'', ''__defineGetter__'', ''__defineSetter__'', ''hasOwnProperty'',
     ''__lookupGetter__'', ''__lookupSetter__'', ''isPrototypeOf'', ''propertyIsEnumerable'',
     ''toString'', ''valueOf'', ''__proto__'', ''toLocaleString'']"

definition indexed :: "question list \<Rightarrow> question list" where
  "indexed bank = concat (map (\<lambda>u. filter (\<lambda>q. unit q = u) bank) [1, 2, 3, 4, 5])"

definition index_fails :: "question list \<Rightarrow> bool" where
  "index_fails bank = list_ex (\<lambda>q. btLevel q \<in> set proto_keys) (indexed bank)"

text \<open>A \<open>Set\<close> keeps its members in insertion order.\<close>

definition set_add :: "'a list \<Rightarrow> 'a \<Rightarrow> 'a list" where
  "set_add s x = (if x \<in> set s then s else s @ [x])"

definition availableBTLs :: "question list \<Rightarrow> string list" where
  "availableBTLs bank = foldl set_add [] (map btLevel (indexed bank))"

section \<open>Steps 2 and 3: the BTL requirements\<close>

text \<open>
  A requirement with \<open>level = 'random'\<close> carries \<open>options\<close>; the others have none.
\<close>

record btl_req =
  level :: string
  options :: "string list option"
  count :: nat

definition fixed_req :: "string \<Rightarrow> nat \<Rightarrow> btl_req" where
  "fixed_req l c = \<lparr>level = l, options = None, count = c\<rparr>"

definition btLevels :: "question list \<Rightarrow> int list" where
  "btLevels bank = filter (\<lambda>btl. btl > 0) (map (\<lambda>q. parseInt_or0 (btLevel q)) bank)"

text \<open>
  \<open>Math.max(...btLevels)\<close>, read only where \<open>btLevels\<close> is not empty: \<open>None\<close> is
  the case \<open>btLevels.length === 0\<close>, which throws. (An array too long to spread is a
  limit of the engine, outside this model.)
\<close>

definition maxBTL :: "question list \<Rightarrow> int option" where
  "maxBTL bank = (case btLevels bank of [] \<Rightarrow> None | b # bs \<Rightarrow> Some (fold max bs b))"

definition schemeA :: "btl_req list" where
  "schemeA = [fixed_req ''2'' 2, fixed_req ''3'' 2, fixed_req ''4'' 1,
              \<lparr>level = ''random'', options = Some [''1'', ''5'', ''6''], count = 1\<rparr>]"

definition schemeB :: "btl_req list" where
  "schemeB = [fixed_req ''2'' 2, fixed_req ''3'' 2, fixed_req ''4'' 2]"

definition schemeC :: "string \<Rightarrow> btl_req list" where
  "schemeC l = [fixed_req l 6]"

definition btlRequirements :: "question list \<Rightarrow> error + btl_req list" where
  "btlRequirements bank =
     (if index_fails bank
      then Inl (TypeError ''availableByUnitAndBTL[unit][q.btLevel].push is not a function'')
      else
        (case maxBTL bank of
           None \<Rightarrow> Inl NoValidBTL
         | Some m \<Rightarrow>
             if m = 6 then Inr schemeA
             else if m = 4 then Inr schemeB
             else (case availableBTLs bank of
                     [l] \<Rightarrow> Inr (schemeC l)
                   | ls \<Rightarrow> Inl (UnsupportedCase m ls))))"

section \<open>Step 4: the unit requirements\<close>

record unit_req =
  req_unit :: int
  minCount :: nat
  maxCount :: nat

definition ureq :: "int \<Rightarrow> nat \<Rightarrow> nat \<Rightarrow> unit_req" where
  "ureq u mn mx = \<lparr>req_unit = u, minCount = mn, maxCount = mx\<rparr>"

definition unitRequirements :: "string \<Rightarrow> error + unit_req list" where
  "unitRequirements paperType =
     (if paperType = ''mid1'' then Inr [ureq 1 2 3, ureq 2 2 3, ureq 3 1 1]
      else if paperType = ''mid2'' then Inr [ureq 4 2 3, ureq 5 2 3, ureq 3 1 1]
      else if paperType = ''special'' then
        Inr [ureq 1 1 2, ureq 2 1 2, ureq 3 1 2, ureq 4 1 2, ureq 5 1 2]
      else Inl InvalidPaperType)"

section \<open>Step 5: the selection\<close>

text \<open>
  The variables of \<open>selectQuestions\<close> that \<open>pickQuestion\<close> and the loops assign, with
  the random source. \<open>unitCount\<close> starts as 0 at the units 1 to 5 and is read at these
  only; \<open>btlCount\<close> starts empty.
\<close>

record sel_state =
  selectedQuestions :: "question list"
  unitCount :: "int \<Rightarrow> nat"
  btlCount :: "string \<rightharpoonup> nat"
  remainingQuestions :: "question list"
  rng :: rng

text \<open>\<open>unitReqs.find(r => r.unit === a)\<close>.\<close>

definition find_req :: "unit_req list \<Rightarrow> int \<Rightarrow> unit_req option" where
  "find_req unitReqs a = find (\<lambda>r. req_unit r = a) unitReqs"

text \<open>\<open>btlCount[btl] || 0\<close>.\<close>

definition btlCount_or0 :: "sel_state \<Rightarrow> string \<Rightarrow> nat" where
  "btlCount_or0 s btl = (case btlCount s btl of None \<Rightarrow> 0 | Some c \<Rightarrow> c)"

text \<open>
  The units of the requirements, sorted (stably) by how far each is from its minimum.
  Every unit sorted is a unit of \<open>unitReqs\<close>, so \<open>find\<close> succeeds in the comparison.
\<close>

definition allowedUnits :: "unit_req list \<Rightarrow> sel_state \<Rightarrow> int list" where
  "allowedUnits unitReqs s =
     sort_key (\<lambda>a. case find_req unitReqs a of
                     Some r \<Rightarrow> int (unitCount s a) - int (minCount r)
                   | None \<Rightarrow> 0)
       (map req_unit unitReqs)"

text \<open>
  The candidates of \<open>pickQuestion\<close>. The third test is reached only for a unit that is
  among \<open>allowedUnits\<close>, where \<open>find\<close> succeeds.
\<close>

definition available :: "unit_req list \<Rightarrow> sel_state \<Rightarrow> string \<Rightarrow> question list" where
  "available unitReqs s btl =
     filter (\<lambda>q. unit q \<in> set (allowedUnits unitReqs s) \<and>
                 btLevel q = btl \<and>
                 (case find_req unitReqs (unit q) of
                    Some r \<Rightarrow> unitCount s (unit q) < maxCount r
                  | None \<Rightarrow> False))
       (remainingQuestions s)"

definition pickQuestion :: "unit_req list \<Rightarrow> string \<Rightarrow> sel_state \<Rightarrow> question option \<times> sel_state" where
  "pickQuestion unitReqs btl s =
     (let av = available unitReqs s btl in
      if av = [] then (None, s)
      else
        let (idx, g) = random_index (length av) (rng s);
            q = av ! idx
        in (Some q,
            s\<lparr>remainingQuestions := filter (\<lambda>r. qid r \<noteq> qid q) (remainingQuestions s),
              unitCount := (unitCount s)(unit q := unitCount s (unit q) + 1),
              btlCount := (btlCount s)(btLevel q \<mapsto> btlCount_or0 s (btLevel q) + 1),
              rng := g\<rparr>))"

definition push :: "question \<Rightarrow> sel_state \<Rightarrow> sel_state" where
  "push q s = s\<lparr>selectedQuestions := selectedQuestions s @ [q]\<rparr>"

text \<open>The loop \<open>while (count > 0)\<close> of a requirement with a fixed level.\<close>

fun pick_fixed :: "unit_req list \<Rightarrow> string \<Rightarrow> nat \<Rightarrow> sel_state \<Rightarrow> error + sel_state" where
  "pick_fixed unitReqs lvl 0 s = Inr s"
| "pick_fixed unitReqs lvl (Suc n) s =
     (case pickQuestion unitReqs lvl s of
        (Some q, s') \<Rightarrow> pick_fixed unitReqs lvl n (push q s')
      | (None, s') \<Rightarrow> Inl (FailedToPick lvl))"

text \<open>
  The loop of the requirement \<open>'random'\<close>: each round draws a label among \<open>randomBTLs\<close>,
  which is not empty here.
\<close>

fun pick_random :: "unit_req list \<Rightarrow> string list \<Rightarrow> nat \<Rightarrow> sel_state \<Rightarrow> error + sel_state" where
  "pick_random unitReqs randomBTLs 0 s = Inr s"
| "pick_random unitReqs randomBTLs (Suc n) s =
     (let (i, g) = random_index (length randomBTLs) (rng s);
          btl = randomBTLs ! i
      in case pickQuestion unitReqs btl (s\<lparr>rng := g\<rparr>) of
           (Some q, s') \<Rightarrow> pick_random unitReqs randomBTLs n (push q s')
         | (None, s') \<Rightarrow> Inl (InsufficientRandom btl))"

definition randomBTLs_of :: "question list \<Rightarrow> unit_req list \<Rightarrow> sel_state \<Rightarrow> string list \<Rightarrow> string list" where
  "randomBTLs_of bank unitReqs s opts =
     filter (\<lambda>btl. list_ex (\<lambda>u. length (availableByUnitAndBTL bank (req_unit u) btl)
                                  > btlCount_or0 s btl) unitReqs) opts"

definition availableCount :: "question list \<Rightarrow> unit_req list \<Rightarrow> sel_state \<Rightarrow> string \<Rightarrow> int" where
  "availableCount bank unitReqs s lvl =
     foldl (\<lambda>sum u. sum + int (length (availableByUnitAndBTL bank (req_unit u) lvl))
                       - int (btlCount_or0 s lvl)) 0 unitReqs"

text \<open>One round of \<open>for (const req of btlReqs)\<close>.\<close>

definition process_req :: "question list \<Rightarrow> unit_req list \<Rightarrow> btl_req \<Rightarrow> sel_state \<Rightarrow> error + sel_state" where
  "process_req bank unitReqs req s =
     (if level req = ''random'' then
        (case options req of
           None \<Rightarrow> Inl (TypeError ''Cannot read properties of undefined (reading 'filter')'')
         | Some opts \<Rightarrow>
             (let randomBTLs = randomBTLs_of bank unitReqs s opts in
              if randomBTLs = [] then Inl NoRandomBTL
              else pick_random unitReqs randomBTLs (count req) s))
      else
        (let ac = availableCount bank unitReqs s (level req) in
         if ac < int (count req) then Inl (InsufficientBTL (level req) (count req) ac)
         else pick_fixed unitReqs (level req) (count req) s))"

fun process_reqs :: "question list \<Rightarrow> unit_req list \<Rightarrow> btl_req list \<Rightarrow> sel_state \<Rightarrow> error + sel_state" where
  "process_reqs bank unitReqs [] s = Inr s"
| "process_reqs bank unitReqs (req # reqs) s =
     (case process_req bank unitReqs req s of
        Inl e \<Rightarrow> Inl e
      | Inr s' \<Rightarrow> process_reqs bank unitReqs reqs s')"

text \<open>The validation of the unit minimums: the first unit below its minimum throws.\<close>

fun validate_minimums :: "unit_req list \<Rightarrow> sel_state \<Rightarrow> error option" where
  "validate_minimums [] s = None"
| "validate_minimums (req # reqs) s =
     (if unitCount s (req_unit req) < minCount req
      then Some (UnitBelowMin (req_unit req) (unitCount s (req_unit req)) (minCount req))
      else validate_minimums reqs s)"

definition init_state :: "question list \<Rightarrow> rng \<Rightarrow> sel_state" where
  "init_state bank g =
     \<lparr>selectedQuestions = [], unitCount = (\<lambda>u. 0), btlCount = Map.empty,
      remainingQuestions = bank, rng = g\<rparr>"

definition selectQuestions :: "question list \<Rightarrow> btl_req list \<Rightarrow> unit_req list \<Rightarrow> rng \<Rightarrow> error + question list" where
  "selectQuestions bank btlReqs unitReqs g =
     (case process_reqs bank unitReqs btlReqs (init_state bank g) of
        Inl e \<Rightarrow> Inl e
      | Inr s \<Rightarrow> (case validate_minimums unitReqs s of
                   Some e \<Rightarrow> Inl e
                 | None \<Rightarrow> Inr (selectedQuestions s)))"

section \<open>\<open>generateQuestions\<close>\<close>

text \<open>
  \<open>generateQuestions\<close> on lists of questions: what it returns or throws, with the
  variable \<open>questionBank\<close>, \<open>None\<close> while it is \<open>null\<close>, which it does not
  assign. What the call does to the arrays, which are objects, is written out further
  down, on a store; the two compute the same.

  The paper type is a string; a value of another type in the request body matches no
  case of the \<open>switch\<close>, as a string other than the three tokens does.
\<close>

record server =
  questionBank :: "question list option"

definition generateQuestions :: "string \<Rightarrow> rng \<Rightarrow> server \<Rightarrow> (error + question list) \<times> server" where
  "generateQuestions paperType g sv =
     (case questionBank sv of
        None \<Rightarrow> (Inl InsufficientBank, sv)
      | Some bank \<Rightarrow>
          if length bank < 6 then (Inl InsufficientBank, sv)
          else
            (case btlRequirements bank of
               Inl e \<Rightarrow> (Inl e, sv)
             | Inr btlReqs \<Rightarrow>
                 (case unitRequirements paperType of
                    Inl e \<Rightarrow> (Inl e, sv)
                  | Inr unitReqs \<Rightarrow>
                      (case selectQuestions bank btlReqs unitReqs g of
                         Inl e \<Rightarrow> (Inl e, sv)
                       | Inr selected \<Rightarrow>
                           if length selected \<noteq> 6 then (Inl NotExactlySix, sv)
                           else (Inr selected, sv)))))"

section \<open>The endpoint \<open>/api/generate\<close>\<close>

record question_view =
  v_question :: cell
  v_imageUrl :: string
  v_btLevel :: string
  v_unit :: int

record paper_details =
  d_subject :: cell
  d_subjectCode :: cell
  d_branch :: cell
  d_regulation :: cell
  d_year :: cell
  d_semester :: cell

datatype generate_body =
    ErrorJson string
  | PaperJson "question_view list" paper_details

record generate_response =
  status :: nat
  body :: generate_body

definition view_of :: "question \<Rightarrow> question_view" where
  "view_of q = \<lparr>v_question = question q, v_imageUrl = imageUrl q,
               v_btLevel = btLevel q, v_unit = unit q\<rparr>"

definition details_of :: "question \<Rightarrow> paper_details" where
  "details_of q = \<lparr>d_subject = subject q, d_subjectCode = subjectCode q, d_branch = branch q,
                  d_regulation = regulation q, d_year = year q, d_semester = semester q\<rparr>"

text \<open>
  Every error thrown inside the \<open>try\<close> is answered with status 500. Reading
  \<open>selectedQuestions[0]\<close> of an empty selection would throw there too.
\<close>

definition api_generate :: "string \<Rightarrow> rng \<Rightarrow> server \<Rightarrow> generate_response \<times> server" where
  "api_generate paperType g sv =
     (if questionBank sv = None
      then (\<lparr>status = 400,
             body = ErrorJson ''No questions available. Please upload an Excel file first.''\<rparr>, sv)
      else
        (case generateQuestions paperType g sv of
           (Inl e, sv') \<Rightarrow>
             (\<lparr>status = 500, body = ErrorJson (''Error generating questions: '' @ message e)\<rparr>, sv')
         | (Inr selected, sv') \<Rightarrow>
             (case selected of
                [] \<Rightarrow> (\<lparr>status = 500,
                         body = ErrorJson (''Error generating questions: '' @
                           ''Cannot read properties of undefined (reading 'subject')'')\<rparr>, sv')
              | q0 # qs \<Rightarrow>
                  (\<lparr>status = 200,
                    body = PaperJson (map view_of selected) (details_of q0)\<rparr>, sv'))))"

section \<open>\<open>getDirectImageURL\<close>\<close>

text \<open>
  The pattern \<open>https:\/\/drive\.google\.com\/file\/d\/([^/]+)\/view\<close>, matched at the
  leftmost position where it matches. The group is a run of characters other than the
  slash and the pattern continues with a slash, so the group is the whole run up to the
  next slash.
\<close>

definition drive_prefix :: string where
  "drive_prefix = ''https://drive.google.com/file/d/''"

definition starts_with :: "string \<Rightarrow> string \<Rightarrow> bool" where
  "starts_with s p = (take (length p) s = p)"

definition match_here :: "string \<Rightarrow> string option" where
  "match_here s =
     (if starts_with s drive_prefix then
        (let rest = drop (length drive_prefix) s;
             grp = takeWhile (\<lambda>c. c \<noteq> CHR ''/'') rest;
             after = dropWhile (\<lambda>c. c \<noteq> CHR ''/'') rest
         in if grp \<noteq> [] \<and> starts_with after ''/view'' then Some grp else None)
      else None)"

fun drive_match :: "string \<Rightarrow> string option" where
  "drive_match [] = None"
| "drive_match (c # cs) =
     (case match_here (c # cs) of Some grp \<Rightarrow> Some grp | None \<Rightarrow> drive_match cs)"

definition getDirectImageURL :: "string \<Rightarrow> string" where
  "getDirectImageURL url =
     (case drive_match url of
        Some grp \<Rightarrow> ''https://drive.google.com/uc?export=view&id='' @ grp
      | None \<Rightarrow> url)"

section \<open>\<open>processExcelData\<close>\<close>

record row =
  row_Unit :: cell
  row_Question :: cell
  row_BT_Level :: cell
  row_Subject_Code :: cell
  row_Subject :: cell
  row_Branch :: cell
  row_Regulation :: cell
  row_Year :: cell
  row_Sem :: cell
  row_Month :: cell
  row_Image_Url :: cell

text \<open>\<open>.replace(/^L/i, '')\<close>.\<close>

definition strip_L :: "string \<Rightarrow> string" where
  "strip_L s = (case s of [] \<Rightarrow> [] | c # cs \<Rightarrow> if c = CHR ''L'' \<or> c = CHR ''l'' then cs else s)"

text \<open>\<open>s || '0'\<close> on a string.\<close>

definition or_zero :: "string \<Rightarrow> string" where
  "or_zero s = (if s = [] then ''0'' else s)"

text \<open>
  The record built for one row. \<open>getDirectImageURL\<close> calls \<open>url.match\<close>, which only a
  string has: a truthy image cell of another type throws a TypeError.
\<close>

definition process_row :: "nat \<Rightarrow> row \<Rightarrow> error + question" where
  "process_row index r =
     (let btLevelRaw = trim (js_String (or_empty (row_BT_Level r)));
          btLevel = strip_L btLevelRaw;
          image = (if truthy (row_Image_Url r)
                   then (case row_Image_Url r of
                           Str url \<Rightarrow> Inr (getDirectImageURL url)
                         | _ \<Rightarrow> Inl (TypeError ''url.match is not a function''))
                   else Inr [])
      in case image of
           Inl e \<Rightarrow> Inl e
         | Inr img \<Rightarrow>
             Inr \<lparr>qid = index + 1,
                  unit = parseInt_or0 (js_String (row_Unit r)),
                  question = or_empty (row_Question r),
                  btLevel = or_zero btLevel,
                  subjectCode = or_empty (row_Subject_Code r),
                  subject = or_empty (row_Subject r),
                  branch = or_empty (row_Branch r),
                  regulation = or_empty (row_Regulation r),
                  year = or_empty (row_Year r),
                  semester = or_empty (row_Sem r),
                  month = or_empty (row_Month r),
                  imageUrl = img\<rparr>)"

text \<open>\<open>data.map((row, index) => ...)\<close>: the first row that throws ends the call.\<close>

fun map_rows :: "nat \<Rightarrow> row list \<Rightarrow> error + question list" where
  "map_rows index [] = Inr []"
| "map_rows index (r # rs) =
     (case process_row index r of
        Inl e \<Rightarrow> Inl e
      | Inr q \<Rightarrow> (case map_rows (index + 1) rs of
                   Inl e \<Rightarrow> Inl e
                 | Inr qs \<Rightarrow> Inr (q # qs)))"

definition processExcelData :: "row list \<Rightarrow> error + question list" where
  "processExcelData data =
     (case map_rows 0 data of
        Inl e \<Rightarrow> Inl e
      | Inr qs \<Rightarrow> Inr (filter (\<lambda>q. unit q \<ge> 1 \<and> unit q \<le> 5 \<and> btLevel q \<noteq> ''0'') qs))"

section \<open>The endpoint \<open>/api/image-proxy-base64\<close>\<close>

text \<open>
  \<open>Buffer.from(data).toString('base64')\<close>, on bytes given as numbers below 256.
\<close>

definition b64_char :: "nat \<Rightarrow> char" where
  "b64_char n = ''ABCDEFGHIJKLMNOPQRSTUVWXYZabcdefghijklmnopqrstuvwxyz0123456789+/'' ! n"

fun base64 :: "nat list \<Rightarrow> string" where
  "base64 (a # b # c # rest) =
     [b64_char (a div 4), b64_char ((a mod 4) * 16 + b div 16),
      b64_char ((b mod 16) * 4 + c div 64), b64_char (c mod 64)] @ base64 rest"
| "base64 [a, b] =
     [b64_char (a div 4), b64_char ((a mod 4) * 16 + b div 16), b64_char ((b mod 16) * 4), CHR ''='']"
| "base64 [a] = [b64_char (a div 4), b64_char ((a mod 4) * 16), CHR ''='', CHR ''='']"
| "base64 [] = []"

text \<open>
  What \<open>axios.get\<close> does with a URL: it throws, or it returns a response with its
  \<open>content-type\<close> header, if any, and its bytes. The network is a parameter of the
  handler.
\<close>

datatype fetch_result =
    FetchFailed
  | FetchOk "string option" "nat list"

datatype proxy_body =
    ProxyError string
  | NotAnImage string string
  | DataUrl string

record proxy_response =
  p_status :: nat
  p_body :: proxy_body

definition placeholder :: string where
  "placeholder = ''data:image/png;base64,iVBORw0KGgoAAAANSUhEUgAAADIAAAAyCAYAAAAeP4ixAAAACXBIWXMAAAsTAAALEwEAmpwYAAAAvElEQVR4nO3YQQqDMBAF0L/KnW+/Q6+xu1oSLeI4DAgAAAAAAAAA7rZpm7Zt2/9eNpvNZrPZdrsdANxut9vt9nq9PgAwGo1Go9FoNBr9MabX6/U2m01mM5vNZnO5XC6X+wDAXC6Xy+VyuVwul8sFAKPRaDQajUaj0Wg0Go1Goz8A8Hg8Ho/H4/F4PB6Px+MBgMFoNBqNRqPRaDQajUaj0Wg0Go1Goz8AAAAAAAAA7rYBAK3eVREcAAAAAElFTkSuQmCC''"

text \<open>
  The query parameter \<open>url\<close> is a string or missing. A response without a content type
  makes \<open>contentType.startsWith\<close> throw inside the \<open>try\<close>, which the \<open>catch\<close>
  answers as it answers a failed fetch.
\<close>

definition api_image_proxy :: "(string \<Rightarrow> fetch_result) \<Rightarrow> string option \<Rightarrow> proxy_response" where
  "api_image_proxy axios_get url =
     (case url of
        None \<Rightarrow> \<lparr>p_status = 400, p_body = ProxyError ''No URL provided''\<rparr>
      | Some u \<Rightarrow>
          if u = [] then \<lparr>p_status = 400, p_body = ProxyError ''No URL provided''\<rparr>
          else
            (let directUrl = getDirectImageURL u in
             case axios_get directUrl of
               FetchFailed \<Rightarrow> \<lparr>p_status = 200, p_body = DataUrl placeholder\<rparr>
             | FetchOk None bytes \<Rightarrow> \<lparr>p_status = 200, p_body = DataUrl placeholder\<rparr>
             | FetchOk (Some contentType) bytes \<Rightarrow>
                 if \<not> starts_with contentType ''image/''
                 then \<lparr>p_status = 400,
                       p_body = NotAnImage ''URL does not point to an image'' contentType\<rparr>
                 else \<lparr>p_status = 200,
                       p_body = DataUrl (''data:'' @ contentType @ '';base64,'' @ base64 bytes)\<rparr>))"

section \<open>Counting and the invariant of the selection\<close>

definition count_unit :: "question list \<Rightarrow> int \<Rightarrow> nat" where
  "count_unit qs u = length (filter (\<lambda>q. unit q = u) qs)"

definition count_level :: "question list \<Rightarrow> string \<Rightarrow> nat" where
  "count_level qs l = length (filter (\<lambda>q. btLevel q = l) qs)"

definition count_levels :: "question list \<Rightarrow> string list \<Rightarrow> nat" where
  "count_levels qs ls = length (filter (\<lambda>q. btLevel q \<in> set ls) qs)"

text \<open>
  What holds of the variables of \<open>selectQuestions\<close> whenever a question has been
  pushed: the selection and the remaining questions come from the bank and share no
  identifier, the selection repeats none, \<open>unitCount\<close> counts the selection, every
  selected unit is a unit required, and no required unit is over its maximum.
\<close>

definition sel_inv :: "question list \<Rightarrow> unit_req list \<Rightarrow> sel_state \<Rightarrow> bool" where
  "sel_inv bank unitReqs s \<longleftrightarrow>
     set (selectedQuestions s) \<subseteq> set bank \<and>
     set (remainingQuestions s) \<subseteq> set bank \<and>
     qid ` set (selectedQuestions s) \<inter> qid ` set (remainingQuestions s) = {} \<and>
     distinct (map qid (selectedQuestions s)) \<and>
     (\<forall>u. unitCount s u = count_unit (selectedQuestions s) u) \<and>
     (\<forall>q \<in> set (selectedQuestions s). find_req unitReqs (unit q) \<noteq> None) \<and>
     (\<forall>u r. find_req unitReqs u = Some r \<longrightarrow> unitCount s u \<le> maxCount r)"

text \<open>A question answers a requirement: it has its level, or one of its options.\<close>

definition req_matches :: "btl_req \<Rightarrow> question \<Rightarrow> bool" where
  "req_matches req q =
     (if level req = ''random''
      then (case options req of Some opts \<Rightarrow> btLevel q \<in> set opts | None \<Rightarrow> False)
      else btLevel q = level req)"

text \<open>Example questions and banks, used to evaluate the functions above.\<close>

definition mkq :: "nat \<Rightarrow> int \<Rightarrow> string \<Rightarrow> question" where
  "mkq i u l = \<lparr>qid = i, unit = u, question = Str ''Q'', btLevel = l, subjectCode = Str ''CS101'',
     subject = Str ''Algorithms'', branch = Str ''CSE'', regulation = Str ''R20'', year = Str ''II'',
     semester = Str ''I'', month = Str ''May'', imageUrl = []\<rparr>"

definition example_bank :: "question list" where
  "example_bank =
     [mkq 1 1 ''2'', mkq 2 2 ''2'', mkq 3 1 ''3'', mkq 4 2 ''3'', mkq 5 3 ''4'', mkq 6 1 ''6'',
      mkq 7 4 ''2'', mkq 8 5 ''2'', mkq 9 4 ''3'', mkq 10 5 ''3'', mkq 11 4 ''6'']"

definition example_server :: server where
  "example_server = \<lparr>questionBank = Some example_bank\<rparr>"

definition example_mid1 :: "question list" where
  "example_mid1 =
     [mkq 1 1 ''2'', mkq 2 2 ''2'', mkq 3 1 ''3'', mkq 4 2 ''3'', mkq 5 3 ''4'', mkq 6 1 ''6'']"

definition example_mid2 :: "question list" where
  "example_mid2 =
     [mkq 7 4 ''2'', mkq 8 5 ''2'', mkq 9 4 ''3'', mkq 10 5 ''3'', mkq 5 3 ''4'', mkq 11 4 ''6'']"

definition example_special :: "question list" where
  "example_special =
     [mkq 1 1 ''2'', mkq 8 5 ''2'', mkq 4 2 ''3'', mkq 9 4 ''3'', mkq 5 3 ''4'', mkq 6 1 ''6'']"

text \<open>Banks on which generation throws.\<close>

definition two_question_bank :: "question list" where
  "two_question_bank = [mkq 1 1 ''2'', mkq 2 2 ''5'']"

definition unparseable_bank :: "question list" where
  "unparseable_bank =
     [mkq 1 1 ''abc'', mkq 2 1 ''def'', mkq 3 2 ''abc'', mkq 4 2 ''def'', mkq 5 3 ''abc'',
      mkq 6 3 ''def'']"

definition constructor_bank :: "question list" where
  "constructor_bank =
     [mkq 1 1 ''2'', mkq 2 1 ''5'', mkq 3 2 ''2'', mkq 4 2 ''5'', mkq 5 3 ''2'',
      mkq 6 3 ''constructor'']"

definition unsupported_bank :: "question list" where
  "unsupported_bank =
     [mkq 1 1 ''5'', mkq 2 1 ''5'', mkq 3 2 ''5'', mkq 4 2 ''5'', mkq 5 3 ''5'', mkq 6 3 ''5'',
      mkq 7 2 ''2'']"

definition all_six_bank :: "question list" where
  "all_six_bank =
     [mkq 1 1 ''6'', mkq 2 1 ''6'', mkq 3 2 ''6'', mkq 4 2 ''6'', mkq 5 3 ''6'', mkq 6 3 ''6'']"

definition all_three_bank :: "question list" where
  "all_three_bank =
     [mkq 1 1 ''3'', mkq 2 1 ''3'', mkq 3 2 ''3'', mkq 4 2 ''3'', mkq 5 3 ''3'', mkq 6 3 ''3'']"

text \<open>A row whose level is no number, and a site that serves a page, not an image.\<close>

definition abc_row :: row where
  "abc_row = \<lparr>row_Unit = Num 1, row_Question = Str ''Define a stack.'', row_BT_Level = Str ''abc'',
     row_Subject_Code = Str ''CS101'', row_Subject = Str ''Algorithms'', row_Branch = Str ''CSE'',
     row_Regulation = Str ''R20'', row_Year = Str ''II'', row_Sem = Str ''I'', row_Month = Str ''May'',
     row_Image_Url = Absent\<rparr>"

definition html_site :: "string \<Rightarrow> fetch_result" where
  "html_site directUrl = FetchOk (Some ''text/html'') [60, 104, 116, 109, 108, 62]"

definition dead_site :: "string \<Rightarrow> fetch_result" where
  "dead_site directUrl = FetchFailed"

section \<open>The arrays of questions as cells of a store\<close>

text \<open>
  An array is an object: two variables can hold the same array, and \<open>push\<close> changes it
  for both. To follow what \<open>generateQuestions\<close> does to the bank, every array of
  questions is here a cell of a store, and a variable holds the address of its array.
  The store is the list of the arrays created so far; an address is a position in it;
  a new array takes the next position. An address beyond the store is held by no
  variable; it reads as the empty array. The questions themselves are values: no
  statement of the source assigns a field of a question or compares two questions
  by identity. The arrays of numbers and of strings that the call builds
  (\<open>btLevels\<close>, \<open>allowedUnits\<close>, which is sorted in place, \<open>randomBTLs\<close>) hold no
  question and stay values, as do the objects \<open>unitCount\<close> and \<open>btlCount\<close>.
\<close>

type_synonym addr = nat

type_synonym heap = "question list list"

definition deref :: "heap \<Rightarrow> addr \<Rightarrow> question list" where
  "deref h a = (if a < length h then h ! a else [])"

definition alloc :: "question list \<Rightarrow> heap \<Rightarrow> addr \<times> heap" where
  "alloc xs h = (length h, h @ [xs])"

definition array_push :: "addr \<Rightarrow> question \<Rightarrow> heap \<Rightarrow> heap" where
  "array_push a q h = h[a := deref h a @ [q]]"

text \<open>The variable \<open>questionBank\<close>, \<open>None\<close> while it is \<open>null\<close>, and the store.\<close>

record store =
  questionBank_ref :: "addr option"
  arrays :: heap

definition bank_of :: "store \<Rightarrow> question list option" where
  "bank_of st = (case questionBank_ref st of None \<Rightarrow> None | Some b \<Rightarrow> Some (deref (arrays st) b))"

definition allocated :: "store \<Rightarrow> bool" where
  "allocated st = (case questionBank_ref st of None \<Rightarrow> True | Some b \<Rightarrow> b < length (arrays st))"

text \<open>
  Step 1. \<open>availableByUnitAndBTL[unit][btl]\<close> holds the address of an array; the loop
  body creates the array at the first question of a unit and a label, and pushes the
  question onto it. At a label that names a property of \<open>Object.prototype\<close> the
  \<open>push\<close> throws.
\<close>

type_synonym index = "(int \<times> string) \<rightharpoonup> addr"

fun index_forEach :: "int \<Rightarrow> question list \<Rightarrow> index \<Rightarrow> heap \<Rightarrow> error option \<times> index \<times> heap" where
  "index_forEach u [] ix h = (None, ix, h)"
| "index_forEach u (q # qs) ix h =
     (if btLevel q \<in> set proto_keys
      then (Some (TypeError ''availableByUnitAndBTL[unit][q.btLevel].push is not a function''), ix, h)
      else
        (let (a, ix1, h1) =
               (case ix (u, btLevel q) of
                  None \<Rightarrow> (let (a, h') = alloc [] h in (a, ix((u, btLevel q) \<mapsto> a), h'))
                | Some a \<Rightarrow> (a, ix, h))
         in index_forEach u qs ix1 (array_push a q h1)))"

text \<open>
  \<open>for (let unit = 1; unit <= 5; unit++)\<close>, with the array that
  \<open>questionBank.filter(q => q.unit === unit)\<close> creates.
\<close>

fun index_units :: "int list \<Rightarrow> addr \<Rightarrow> index \<Rightarrow> heap \<Rightarrow> error option \<times> index \<times> heap" where
  "index_units [] b ix h = (None, ix, h)"
| "index_units (u # us) b ix h =
     (let (t, h1) = alloc (filter (\<lambda>q. unit q = u) (deref h b)) h in
      case index_forEach u (deref h1 t) ix h1 of
        (Some e, ix', h') \<Rightarrow> (Some e, ix', h')
      | (None, ix', h') \<Rightarrow> index_units us b ix' h')"

text \<open>\<open>availableByUnitAndBTL[u][btl]?.length\<close>, read as 0 where there is no array.\<close>

definition index_length :: "index \<Rightarrow> heap \<Rightarrow> int \<Rightarrow> string \<Rightarrow> nat" where
  "index_length ix h u btl = (case ix (u, btl) of None \<Rightarrow> 0 | Some a \<Rightarrow> length (deref h a))"

text \<open>Steps 2 and 3, on the bank as it is read then.\<close>

definition scheme_of :: "question list \<Rightarrow> error + btl_req list" where
  "scheme_of bank =
     (case maxBTL bank of
        None \<Rightarrow> Inl NoValidBTL
      | Some m \<Rightarrow>
          if m = 6 then Inr schemeA
          else if m = 4 then Inr schemeB
          else (case availableBTLs bank of
                  [l] \<Rightarrow> Inr (schemeC l)
                | ls \<Rightarrow> Inl (UnsupportedCase m ls)))"

text \<open>
  Step 5. The variables of \<open>selectQuestions\<close>: \<open>selectedQuestions\<close> and
  \<open>remainingQuestions\<close> hold addresses.
\<close>

record sel_store =
  selectedQuestions_ref :: addr
  remainingQuestions_ref :: addr
  s_unitCount :: "int \<Rightarrow> nat"
  s_btlCount :: "string \<rightharpoonup> nat"
  s_rng :: rng
  s_arrays :: heap

text \<open>The variables with the arrays they hold.\<close>

definition view :: "sel_store \<Rightarrow> sel_state" where
  "view s =
     \<lparr>selectedQuestions = deref (s_arrays s) (selectedQuestions_ref s),
      unitCount = s_unitCount s, btlCount = s_btlCount s,
      remainingQuestions = deref (s_arrays s) (remainingQuestions_ref s),
      rng = s_rng s\<rparr>"

text \<open>
  \<open>pickQuestion\<close>: the two calls of \<open>filter\<close> create arrays; \<open>remainingQuestions\<close> is
  assigned the address of the second.
\<close>

definition pickQuestion_s :: "unit_req list \<Rightarrow> string \<Rightarrow> sel_store \<Rightarrow> question option \<times> sel_store" where
  "pickQuestion_s unitReqs btl s =
     (let (av, h1) = alloc (available unitReqs (view s) btl) (s_arrays s) in
      if deref h1 av = [] then (None, s\<lparr>s_arrays := h1\<rparr>)
      else
        let (idx, g) = random_index (length (deref h1 av)) (s_rng s);
            q = deref h1 av ! idx;
            (r, h2) = alloc (filter (\<lambda>r. qid r \<noteq> qid q) (deref h1 (remainingQuestions_ref s))) h1
        in (Some q,
            s\<lparr>remainingQuestions_ref := r,
              s_unitCount := (s_unitCount s)(unit q := s_unitCount s (unit q) + 1),
              s_btlCount := (s_btlCount s)(btLevel q \<mapsto> btlCount_or0 (view s) (btLevel q) + 1),
              s_rng := g,
              s_arrays := h2\<rparr>))"

text \<open>\<open>selectedQuestions.push(q)\<close>.\<close>

definition push_s :: "question \<Rightarrow> sel_store \<Rightarrow> sel_store" where
  "push_s q s = s\<lparr>s_arrays := array_push (selectedQuestions_ref s) q (s_arrays s)\<rparr>"

fun pick_fixed_s :: "unit_req list \<Rightarrow> string \<Rightarrow> nat \<Rightarrow> sel_store \<Rightarrow> error option \<times> sel_store" where
  "pick_fixed_s unitReqs lvl 0 s = (None, s)"
| "pick_fixed_s unitReqs lvl (Suc n) s =
     (case pickQuestion_s unitReqs lvl s of
        (Some q, s') \<Rightarrow> pick_fixed_s unitReqs lvl n (push_s q s')
      | (None, s') \<Rightarrow> (Some (FailedToPick lvl), s'))"

fun pick_random_s :: "unit_req list \<Rightarrow> string list \<Rightarrow> nat \<Rightarrow> sel_store \<Rightarrow> error option \<times> sel_store" where
  "pick_random_s unitReqs randomBTLs 0 s = (None, s)"
| "pick_random_s unitReqs randomBTLs (Suc n) s =
     (let (i, g) = random_index (length randomBTLs) (s_rng s);
          btl = randomBTLs ! i
      in case pickQuestion_s unitReqs btl (s\<lparr>s_rng := g\<rparr>) of
           (Some q, s') \<Rightarrow> pick_random_s unitReqs randomBTLs n (push_s q s')
         | (None, s') \<Rightarrow> (Some (InsufficientRandom btl), s'))"

definition randomBTLs_s :: "index \<Rightarrow> unit_req list \<Rightarrow> sel_store \<Rightarrow> string list \<Rightarrow> string list" where
  "randomBTLs_s ix unitReqs s opts =
     filter (\<lambda>btl. list_ex (\<lambda>u. index_length ix (s_arrays s) (req_unit u) btl
                                  > btlCount_or0 (view s) btl) unitReqs) opts"

definition availableCount_s :: "index \<Rightarrow> unit_req list \<Rightarrow> sel_store \<Rightarrow> string \<Rightarrow> int" where
  "availableCount_s ix unitReqs s lvl =
     foldl (\<lambda>sum u. sum + int (index_length ix (s_arrays s) (req_unit u) lvl)
                       - int (btlCount_or0 (view s) lvl)) 0 unitReqs"

definition process_req_s :: "index \<Rightarrow> unit_req list \<Rightarrow> btl_req \<Rightarrow> sel_store \<Rightarrow> error option \<times> sel_store" where
  "process_req_s ix unitReqs req s =
     (if level req = ''random'' then
        (case options req of
           None \<Rightarrow> (Some (TypeError ''Cannot read properties of undefined (reading 'filter')''), s)
         | Some opts \<Rightarrow>
             (let randomBTLs = randomBTLs_s ix unitReqs s opts in
              if randomBTLs = [] then (Some NoRandomBTL, s)
              else pick_random_s unitReqs randomBTLs (count req) s))
      else
        (let ac = availableCount_s ix unitReqs s (level req) in
         if ac < int (count req) then (Some (InsufficientBTL (level req) (count req) ac), s)
         else pick_fixed_s unitReqs (level req) (count req) s))"

fun process_reqs_s :: "index \<Rightarrow> unit_req list \<Rightarrow> btl_req list \<Rightarrow> sel_store \<Rightarrow> error option \<times> sel_store" where
  "process_reqs_s ix unitReqs [] s = (None, s)"
| "process_reqs_s ix unitReqs (req # reqs) s =
     (case process_req_s ix unitReqs req s of
        (Some e, s') \<Rightarrow> (Some e, s')
      | (None, s') \<Rightarrow> process_reqs_s ix unitReqs reqs s')"

text \<open>
  \<open>selectQuestions\<close>: \<open>selectedQuestions = []\<close> and \<open>[...questionBank]\<close> create
  arrays, the second with the questions that the bank holds then. It returns the
  address of \<open>selectedQuestions\<close>, or throws, and the store as it is then.
\<close>

definition selectQuestions_s :: "addr \<Rightarrow> index \<Rightarrow> btl_req list \<Rightarrow> unit_req list \<Rightarrow> rng \<Rightarrow> heap \<Rightarrow> (error + addr) \<times> heap" where
  "selectQuestions_s b ix btlReqs unitReqs g h =
     (let (sel, h1) = alloc [] h;
          (rem, h2) = alloc (deref h1 b) h1;
          s0 = \<lparr>selectedQuestions_ref = sel, remainingQuestions_ref = rem,
                s_unitCount = (\<lambda>u. 0), s_btlCount = Map.empty, s_rng = g, s_arrays = h2\<rparr>
      in case process_reqs_s ix unitReqs btlReqs s0 of
           (Some e, s) \<Rightarrow> (Inl e, s_arrays s)
         | (None, s) \<Rightarrow>
             (case validate_minimums unitReqs (view s) of
                Some e \<Rightarrow> (Inl e, s_arrays s)
              | None \<Rightarrow> (Inr (selectedQuestions_ref s), s_arrays s)))"

text \<open>
  \<open>generateQuestions\<close> on the store: what it returns (the questions of the array it
  returns) or throws, and the state it leaves.
\<close>

definition generateQuestions_store :: "string \<Rightarrow> rng \<Rightarrow> store \<Rightarrow> (error + question list) \<times> store" where
  "generateQuestions_store paperType g st =
     (case questionBank_ref st of
        None \<Rightarrow> (Inl InsufficientBank, st)
      | Some b \<Rightarrow>
          if length (deref (arrays st) b) < 6 then (Inl InsufficientBank, st)
          else
            (case index_units [1, 2, 3, 4, 5] b Map.empty (arrays st) of
               (Some e, ix, h1) \<Rightarrow> (Inl e, st\<lparr>arrays := h1\<rparr>)
             | (None, ix, h1) \<Rightarrow>
                 (case scheme_of (deref h1 b) of
                    Inl e \<Rightarrow> (Inl e, st\<lparr>arrays := h1\<rparr>)
                  | Inr btlReqs \<Rightarrow>
                      (case unitRequirements paperType of
                         Inl e \<Rightarrow> (Inl e, st\<lparr>arrays := h1\<rparr>)
                       | Inr unitReqs \<Rightarrow>
                           (case selectQuestions_s b ix btlReqs unitReqs g h1 of
                              (Inl e, h2) \<Rightarrow> (Inl e, st\<lparr>arrays := h2\<rparr>)
                            | (Inr sel, h2) \<Rightarrow>
                                if length (deref h2 sel) \<noteq> 6
                                then (Inl NotExactlySix, st\<lparr>arrays := h2\<rparr>)
                                else (Inr (deref h2 sel), st\<lparr>arrays := h2\<rparr>))))))"

text \<open>A store grows: the arrays that \<open>h0\<close> holds are in \<open>h\<close> as they were.\<close>

definition extends :: "heap \<Rightarrow> heap \<Rightarrow> bool" where
  "extends h0 h \<longleftrightarrow> length h0 \<le> length h \<and> take (length h0) h = h0"

text \<open>Example stores: the bank is the only array, or the second of two.\<close>

definition example_store :: store where
  "example_store = \<lparr>questionBank_ref = Some 0, arrays = [example_bank]\<rparr>"

definition constructor_store :: store where
  "constructor_store = \<lparr>questionBank_ref = Some 1, arrays = [example_bank, constructor_bank]\<rparr>"

text \<open>Every address that the index holds, and the address of \<open>selectedQuestions\<close>,
  is the address of an array created after \<open>h0\<close>.\<close>

definition index_fresh :: "heap \<Rightarrow> index \<Rightarrow> bool" where
  "index_fresh h0 ix \<longleftrightarrow> (\<forall>k a. ix k = Some a \<longrightarrow> length h0 \<le> a)"

definition sel_fresh :: "heap \<Rightarrow> sel_store \<Rightarrow> bool" where
  "sel_fresh h0 s \<longleftrightarrow> extends h0 (s_arrays s) \<and> length h0 \<le> selectedQuestions_ref s"

text \<open>
  The index after the questions \<open>done\<close> have been pushed, each under its own unit and
  label: distinct entries hold distinct arrays, created after \<open>h0\<close>, and the array of
  an entry holds the questions of its unit and label, in the order they came.
\<close>

definition index_array :: "index \<Rightarrow> heap \<Rightarrow> int \<times> string \<Rightarrow> question list" where
  "index_array ix h k = (case ix k of None \<Rightarrow> [] | Some a \<Rightarrow> deref h a)"

definition index_ok :: "heap \<Rightarrow> index \<Rightarrow> heap \<Rightarrow> question list \<Rightarrow> bool" where
  "index_ok h0 ix h done \<longleftrightarrow>
     extends h0 h \<and>
     (\<forall>k a. ix k = Some a \<longrightarrow> length h0 \<le> a \<and> a < length h) \<and>
     (\<forall>k k' a. ix k = Some a \<and> ix k' = Some a \<longrightarrow> k = k') \<and>
     (\<forall>k. index_array ix h k = filter (\<lambda>q. (unit q, btLevel q) = k) done)"

text \<open>
  The addresses of \<open>selectedQuestions\<close> and \<open>remainingQuestions\<close> are of two arrays
  of the store, the first created after \<open>h1\<close>.
\<close>

definition sel_ok :: "heap \<Rightarrow> sel_store \<Rightarrow> bool" where
  "sel_ok h1 s \<longleftrightarrow>
     extends h1 (s_arrays s) \<and>
     length h1 \<le> selectedQuestions_ref s \<and>
     selectedQuestions_ref s < length (s_arrays s) \<and>
     remainingQuestions_ref s < length (s_arrays s) \<and>
     selectedQuestions_ref s \<noteq> remainingQuestions_ref s"

section \<open>The selection keeps its invariant\<close>

lemma random_index_less: "0 < n \<Longrightarrow> fst (random_index n g) < n"
  by (simp add: random_index_def split: list.split)

lemma sel_inv_init: "sel_inv bank unitReqs (init_state bank g)"
  by (simp add: sel_inv_def init_state_def count_unit_def)

lemma sel_inv_rng: "sel_inv bank unitReqs (s\<lparr>rng := g\<rparr>) = sel_inv bank unitReqs s"
  by (simp add: sel_inv_def)

lemma pickQuestion_None: "pickQuestion unitReqs btl s = (None, s') \<Longrightarrow> s' = s"
  by (auto simp: pickQuestion_def Let_def split: if_splits prod.splits)

lemma pickQuestion_Some:
  assumes "pickQuestion unitReqs btl s = (Some q, s')"
  shows "q \<in> set (available unitReqs s btl)"
    and "s' = s\<lparr>remainingQuestions := filter (\<lambda>r. qid r \<noteq> qid q) (remainingQuestions s),
              unitCount := (unitCount s)(unit q := unitCount s (unit q) + 1),
              btlCount := (btlCount s)(btLevel q \<mapsto> btlCount_or0 s (btLevel q) + 1),
              rng := snd (random_index (length (available unitReqs s btl)) (rng s))\<rparr>"
proof -
  let ?av = "available unitReqs s btl"
  from assms have ne: "?av \<noteq> []"
    by (auto simp: pickQuestion_def Let_def split: if_splits)
  then have lt: "fst (random_index (length ?av) (rng s)) < length ?av"
    by (simp add: random_index_less)
  from assms ne have q: "q = ?av ! fst (random_index (length ?av) (rng s))"
    by (auto simp: pickQuestion_def Let_def split: prod.splits)
  with lt show "q \<in> set ?av" by simp
  from assms ne q show "s' = s\<lparr>remainingQuestions := filter (\<lambda>r. qid r \<noteq> qid q) (remainingQuestions s),
              unitCount := (unitCount s)(unit q := unitCount s (unit q) + 1),
              btlCount := (btlCount s)(btLevel q \<mapsto> btlCount_or0 s (btLevel q) + 1),
              rng := snd (random_index (length (available unitReqs s btl)) (rng s))\<rparr>"
    by (auto simp: pickQuestion_def Let_def split: prod.splits)
qed

lemma available_D:
  assumes "q \<in> set (available unitReqs s btl)"
  shows "q \<in> set (remainingQuestions s)" and "btLevel q = btl"
    and "\<exists>r. find_req unitReqs (unit q) = Some r \<and> unitCount s (unit q) < maxCount r"
  using assms by (auto simp: available_def split: option.splits)

lemma pick_push_inv:
  assumes inv: "sel_inv bank unitReqs s"
    and pick: "pickQuestion unitReqs btl s = (Some q, s')"
  shows "sel_inv bank unitReqs (push q s')"
    and "selectedQuestions (push q s') = selectedQuestions s @ [q]"
    and "btLevel q = btl"
proof -
  note p = pickQuestion_Some[OF pick]
  note a = available_D[OF p(1)]
  from a(3) obtain r where r: "find_req unitReqs (unit q) = Some r" "unitCount s (unit q) < maxCount r"
    by blast
  show "btLevel q = btl" by (rule a(2))
  show sel: "selectedQuestions (push q s') = selectedQuestions s @ [q]"
    by (simp add: push_def p(2))
  have rem: "remainingQuestions (push q s') = filter (\<lambda>r. qid r \<noteq> qid q) (remainingQuestions s)"
    by (simp add: push_def p(2))
  have uc: "unitCount (push q s') = (unitCount s)(unit q := unitCount s (unit q) + 1)"
    by (simp add: push_def p(2))
  from inv have i1: "set (selectedQuestions s) \<subseteq> set bank"
    and i2: "set (remainingQuestions s) \<subseteq> set bank"
    and i3: "qid ` set (selectedQuestions s) \<inter> qid ` set (remainingQuestions s) = {}"
    and i4: "distinct (map qid (selectedQuestions s))"
    and i5: "\<forall>u. unitCount s u = count_unit (selectedQuestions s) u"
    and i6: "\<forall>q \<in> set (selectedQuestions s). find_req unitReqs (unit q) \<noteq> None"
    and i7: "\<forall>u r. find_req unitReqs u = Some r \<longrightarrow> unitCount s u \<le> maxCount r"
    unfolding sel_inv_def by blast+
  have c1: "set (selectedQuestions (push q s')) \<subseteq> set bank"
    using i1 i2 a(1) by (auto simp: sel)
  have c2: "set (remainingQuestions (push q s')) \<subseteq> set bank"
    using i2 by (auto simp: rem)
  have c3: "qid ` set (selectedQuestions (push q s')) \<inter> qid ` set (remainingQuestions (push q s')) = {}"
    using i3 by (auto simp: sel rem)
  have "qid q \<notin> qid ` set (selectedQuestions s)"
    using i3 a(1) by auto
  then have c4: "distinct (map qid (selectedQuestions (push q s')))"
    using i4 by (simp add: sel)
  have c5: "\<forall>u. unitCount (push q s') u = count_unit (selectedQuestions (push q s')) u"
    using i5 by (simp add: sel uc count_unit_def)
  have c6: "\<forall>q' \<in> set (selectedQuestions (push q s')). find_req unitReqs (unit q') \<noteq> None"
    using i6 r(1) by (auto simp: sel)
  have c7: "\<forall>u r. find_req unitReqs u = Some r \<longrightarrow> unitCount (push q s') u \<le> maxCount r"
    using i7 r by (auto simp: uc)
  show "sel_inv bank unitReqs (push q s')"
    unfolding sel_inv_def using c1 c2 c3 c4 c5 c6 c7 by blast
qed

lemma pick_fixed_inv:
  "sel_inv bank unitReqs s \<Longrightarrow> pick_fixed unitReqs lvl n s = Inr s' \<Longrightarrow>
   sel_inv bank unitReqs s' \<and>
   (\<exists>qs. selectedQuestions s' = selectedQuestions s @ qs \<and> length qs = n \<and>
         (\<forall>q \<in> set qs. btLevel q = lvl))"
proof (induction n arbitrary: s)
  case 0
  then show ?case by simp
next
  case (Suc n)
  from Suc.prems(2) obtain q s1 where
    pick: "pickQuestion unitReqs lvl s = (Some q, s1)"
    and rest: "pick_fixed unitReqs lvl n (push q s1) = Inr s'"
    by (auto split: prod.splits option.splits)
  note pp = pick_push_inv[OF Suc.prems(1) pick]
  from Suc.IH[OF pp(1) rest] obtain qs where
    inv': "sel_inv bank unitReqs s'"
    and qs: "selectedQuestions s' = selectedQuestions (push q s1) @ qs" "length qs = n"
      "\<forall>q \<in> set qs. btLevel q = lvl"
    by blast
  have "selectedQuestions s' = selectedQuestions s @ (q # qs)"
    using qs(1) pp(2) by simp
  moreover have "length (q # qs) = Suc n" using qs(2) by simp
  moreover have "\<forall>x \<in> set (q # qs). btLevel x = lvl" using qs(3) pp(3) by simp
  ultimately show ?case using inv' by blast
qed

lemma pick_random_inv:
  "sel_inv bank unitReqs s \<Longrightarrow> randomBTLs \<noteq> [] \<Longrightarrow>
   pick_random unitReqs randomBTLs n s = Inr s' \<Longrightarrow>
   sel_inv bank unitReqs s' \<and>
   (\<exists>qs. selectedQuestions s' = selectedQuestions s @ qs \<and> length qs = n \<and>
         (\<forall>q \<in> set qs. btLevel q \<in> set randomBTLs))"
proof (induction n arbitrary: s)
  case 0
  then show ?case by simp
next
  case (Suc n)
  let ?i = "fst (random_index (length randomBTLs) (rng s))"
  let ?g = "snd (random_index (length randomBTLs) (rng s))"
  let ?btl = "randomBTLs ! ?i"
  from Suc.prems(3) obtain q s1 where
    pick: "pickQuestion unitReqs ?btl (s\<lparr>rng := ?g\<rparr>) = (Some q, s1)"
    and rest: "pick_random unitReqs randomBTLs n (push q s1) = Inr s'"
    by (auto simp: Let_def split: prod.splits option.splits)
  have inv0: "sel_inv bank unitReqs (s\<lparr>rng := ?g\<rparr>)"
    using Suc.prems(1) by (simp add: sel_inv_rng)
  note pp = pick_push_inv[OF inv0 pick]
  have mem: "?btl \<in> set randomBTLs"
    using Suc.prems(2) by (simp add: random_index_less)
  from Suc.IH[OF pp(1) Suc.prems(2) rest] obtain qs where
    inv': "sel_inv bank unitReqs s'"
    and qs: "selectedQuestions s' = selectedQuestions (push q s1) @ qs" "length qs = n"
      "\<forall>q \<in> set qs. btLevel q \<in> set randomBTLs"
    by blast
  have "selectedQuestions s' = selectedQuestions s @ (q # qs)"
    using qs(1) pp(2) by simp
  moreover have "length (q # qs) = Suc n" using qs(2) by simp
  moreover have "\<forall>x \<in> set (q # qs). btLevel x \<in> set randomBTLs"
    using qs(3) pp(3) mem by simp
  ultimately show ?case using inv' by blast
qed

lemma process_req_inv:
  assumes "sel_inv bank unitReqs s" and "process_req bank unitReqs req s = Inr s'"
  shows "sel_inv bank unitReqs s' \<and>
   (\<exists>qs. selectedQuestions s' = selectedQuestions s @ qs \<and> length qs = count req \<and>
         (\<forall>q \<in> set qs. req_matches req q))"
proof (cases "level req = ''random''")
  case True
  with assms(2) obtain opts where
    opts: "options req = Some opts"
    and ne: "randomBTLs_of bank unitReqs s opts \<noteq> []"
    and run: "pick_random unitReqs (randomBTLs_of bank unitReqs s opts) (count req) s = Inr s'"
    by (auto simp: process_req_def Let_def split: option.splits if_splits)
  have sub: "set (randomBTLs_of bank unitReqs s opts) \<subseteq> set opts"
    by (auto simp: randomBTLs_of_def)
  from pick_random_inv[OF assms(1) ne run] sub True opts show ?thesis
    by (fastforce simp: req_matches_def)
next
  case False
  with assms(2) have run: "pick_fixed unitReqs (level req) (count req) s = Inr s'"
    by (auto simp: process_req_def Let_def split: if_splits)
  from pick_fixed_inv[OF assms(1) run] False show ?thesis
    by (fastforce simp: req_matches_def)
qed

lemma process_reqs_inv:
  "sel_inv bank unitReqs s \<Longrightarrow> process_reqs bank unitReqs reqs s = Inr s' \<Longrightarrow>
   sel_inv bank unitReqs s' \<and>
   (\<exists>qss. selectedQuestions s' = selectedQuestions s @ concat qss \<and>
          list_all2 (\<lambda>req qs. length qs = count req \<and> (\<forall>q \<in> set qs. req_matches req q)) reqs qss)"
proof (induction reqs arbitrary: s)
  case Nil
  then show ?case by simp
next
  case (Cons req reqs)
  from Cons.prems(2) obtain s1 where
    one: "process_req bank unitReqs req s = Inr s1"
    and rest: "process_reqs bank unitReqs reqs s1 = Inr s'"
    by (auto split: sum.splits)
  from process_req_inv[OF Cons.prems(1) one] obtain qs where
    inv1: "sel_inv bank unitReqs s1"
    and qs: "selectedQuestions s1 = selectedQuestions s @ qs" "length qs = count req"
      "\<forall>q \<in> set qs. req_matches req q"
    by blast
  from Cons.IH[OF inv1 rest] obtain qss where
    inv': "sel_inv bank unitReqs s'"
    and qss: "selectedQuestions s' = selectedQuestions s1 @ concat qss"
      "list_all2 (\<lambda>req qs. length qs = count req \<and> (\<forall>q \<in> set qs. req_matches req q)) reqs qss"
    by blast
  have "selectedQuestions s' = selectedQuestions s @ concat (qs # qss)"
    using qs(1) qss(1) by simp
  moreover have "list_all2 (\<lambda>req qs. length qs = count req \<and> (\<forall>q \<in> set qs. req_matches req q))
      (req # reqs) (qs # qss)"
    using qs(2,3) qss(2) by simp
  ultimately show ?case using inv' by blast
qed


lemma validate_minimums_None:
  "validate_minimums reqs s = None \<Longrightarrow> \<forall>r \<in> set reqs. minCount r \<le> unitCount s (req_unit r)"
  by (induction reqs) (auto split: if_splits)

lemma selectQuestions_Inr:
  assumes "selectQuestions bank btlReqs unitReqs g = Inr selected"
  shows "\<exists>s. sel_inv bank unitReqs s \<and> selectedQuestions s = selected \<and>
             validate_minimums unitReqs s = None \<and>
             (\<exists>qss. selected = concat qss \<and>
                list_all2 (\<lambda>req qs. length qs = count req \<and> (\<forall>q \<in> set qs. req_matches req q))
                  btlReqs qss)"
proof -
  from assms obtain s where
    run: "process_reqs bank unitReqs btlReqs (init_state bank g) = Inr s"
    and val: "validate_minimums unitReqs s = None"
    and sel: "selectedQuestions s = selected"
    by (auto simp: selectQuestions_def split: sum.splits option.splits)
  from process_reqs_inv[OF sel_inv_init run] sel val show ?thesis
    by (auto simp: init_state_def)
qed

lemma generateQuestions_Inr:
  assumes "fst (generateQuestions paperType g sv) = Inr selected"
  shows "\<exists>bank btlReqs unitReqs.
           questionBank sv = Some bank \<and> 6 \<le> length bank \<and>
           btlRequirements bank = Inr btlReqs \<and>
           unitRequirements paperType = Inr unitReqs \<and>
           selectQuestions bank btlReqs unitReqs g = Inr selected \<and>
           length selected = 6"
  using assms
  by (auto simp: generateQuestions_def split: option.splits sum.splits if_splits)

text \<open>
  C1. Whenever \<open>generateQuestions\<close> returns, for any paper type, any bank and any random
  draws, the selection has exactly six questions, each one a question of the current
  bank, and no two of them have the same identifier.
\<close>

theorem generateQuestions_six_distinct:
  assumes "fst (generateQuestions paperType g sv) = Inr selected"
  shows "\<exists>bank. questionBank sv = Some bank \<and> length selected = 6 \<and>
           set selected \<subseteq> set bank \<and> distinct (map qid selected)"
proof -
  from generateQuestions_Inr[OF assms] obtain bank btlReqs unitReqs where
    b: "questionBank sv = Some bank" and len: "length selected = 6"
    and sel: "selectQuestions bank btlReqs unitReqs g = Inr selected"
    by blast
  from selectQuestions_Inr[OF sel] obtain s where
    "sel_inv bank unitReqs s" "selectedQuestions s = selected"
    by blast
  then have "set selected \<subseteq> set bank" "distinct (map qid selected)"
    by (auto simp: sel_inv_def)
  with b len show ?thesis by blast
qed

lemma length_by_units3:
  "\<forall>q \<in> set qs. unit q = a \<or> unit q = b \<or> unit q = c \<Longrightarrow> a \<noteq> b \<Longrightarrow> a \<noteq> c \<Longrightarrow> b \<noteq> c \<Longrightarrow>
   length qs = count_unit qs a + count_unit qs b + count_unit qs c"
  by (induction qs) (auto simp: count_unit_def)

lemma length_by_units5:
  "\<forall>q \<in> set qs. unit q \<in> {1, 2, 3, 4, 5} \<Longrightarrow>
   length qs = count_unit qs 1 + count_unit qs 2 + count_unit qs 3 + count_unit qs 4 + count_unit qs 5"
  by (induction qs) (auto simp: count_unit_def)

lemma count_unit_0: "\<forall>q \<in> set qs. unit q \<noteq> u \<Longrightarrow> count_unit qs u = 0"
  by (simp add: count_unit_def)

lemma units3:
  assumes inv: "sel_inv bank [ureq a mna mxa, ureq b mnb mxb, ureq c mnc mxc] s"
    and val: "validate_minimums [ureq a mna mxa, ureq b mnb mxb, ureq c mnc mxc] s = None"
    and d: "a \<noteq> b" "a \<noteq> c" "b \<noteq> c"
  shows "mna \<le> count_unit (selectedQuestions s) a \<and> count_unit (selectedQuestions s) a \<le> mxa"
    and "mnb \<le> count_unit (selectedQuestions s) b \<and> count_unit (selectedQuestions s) b \<le> mxb"
    and "mnc \<le> count_unit (selectedQuestions s) c \<and> count_unit (selectedQuestions s) c \<le> mxc"
    and "\<forall>u. u \<noteq> a \<and> u \<noteq> b \<and> u \<noteq> c \<longrightarrow> count_unit (selectedQuestions s) u = 0"
    and "length (selectedQuestions s) = count_unit (selectedQuestions s) a
           + count_unit (selectedQuestions s) b + count_unit (selectedQuestions s) c"
proof -
  let ?R = "[ureq a mna mxa, ureq b mnb mxb, ureq c mnc mxc]"
  let ?sel = "selectedQuestions s"
  from inv have uc: "\<And>u. unitCount s u = count_unit ?sel u"
    and mem: "\<And>q. q \<in> set ?sel \<Longrightarrow> find_req ?R (unit q) \<noteq> None"
    and mx: "\<And>u r. find_req ?R u = Some r \<Longrightarrow> unitCount s u \<le> maxCount r"
    unfolding sel_inv_def by blast+
  note mn = validate_minimums_None[OF val]
  have fa: "find_req ?R a = Some (ureq a mna mxa)"
    and fb: "find_req ?R b = Some (ureq b mnb mxb)"
    and fc: "find_req ?R c = Some (ureq c mnc mxc)"
    using d by (simp_all add: find_req_def ureq_def)
  show "mna \<le> count_unit ?sel a \<and> count_unit ?sel a \<le> mxa"
    using mn mx[OF fa] by (simp add: uc ureq_def)
  show "mnb \<le> count_unit ?sel b \<and> count_unit ?sel b \<le> mxb"
    using mn mx[OF fb] by (simp add: uc ureq_def)
  show "mnc \<le> count_unit ?sel c \<and> count_unit ?sel c \<le> mxc"
    using mn mx[OF fc] by (simp add: uc ureq_def)
  have units: "\<forall>q \<in> set ?sel. unit q = a \<or> unit q = b \<or> unit q = c"
  proof
    fix q assume "q \<in> set ?sel"
    from mem[OF this] show "unit q = a \<or> unit q = b \<or> unit q = c"
      by (auto simp: find_req_def ureq_def split: if_splits)
  qed
  then show "\<forall>u. u \<noteq> a \<and> u \<noteq> b \<and> u \<noteq> c \<longrightarrow> count_unit ?sel u = 0"
    by (auto intro!: count_unit_0)
  from length_by_units3[OF units d]
  show "length ?sel = count_unit ?sel a + count_unit ?sel b + count_unit ?sel c" .
qed


lemma units5:
  assumes inv: "sel_inv bank [ureq 1 1 2, ureq 2 1 2, ureq 3 1 2, ureq 4 1 2, ureq 5 1 2] s"
    and val: "validate_minimums [ureq 1 1 2, ureq 2 1 2, ureq 3 1 2, ureq 4 1 2, ureq 5 1 2] s = None"
  shows "\<forall>u \<in> {1, 2, 3, 4, 5}. 1 \<le> count_unit (selectedQuestions s) u \<and> count_unit (selectedQuestions s) u \<le> 2"
    and "\<forall>u. u \<notin> {1, 2, 3, 4, 5} \<longrightarrow> count_unit (selectedQuestions s) u = 0"
    and "length (selectedQuestions s) = count_unit (selectedQuestions s) 1
           + count_unit (selectedQuestions s) 2 + count_unit (selectedQuestions s) 3
           + count_unit (selectedQuestions s) 4 + count_unit (selectedQuestions s) 5"
proof -
  let ?R = "[ureq 1 1 2, ureq 2 1 2, ureq 3 1 2, ureq 4 1 2, ureq 5 1 2]"
  let ?sel = "selectedQuestions s"
  from inv have uc: "\<And>u. unitCount s u = count_unit ?sel u"
    and mem: "\<And>q. q \<in> set ?sel \<Longrightarrow> find_req ?R (unit q) \<noteq> None"
    and mx: "\<And>u r. find_req ?R u = Some r \<Longrightarrow> unitCount s u \<le> maxCount r"
    unfolding sel_inv_def by blast+
  note mn = validate_minimums_None[OF val]
  have f: "\<And>u. u \<in> {1, 2, 3, 4, 5} \<Longrightarrow> find_req ?R u = Some (ureq u 1 2)"
    by (auto simp: find_req_def ureq_def)
  show "\<forall>u \<in> {1, 2, 3, 4, 5}. 1 \<le> count_unit ?sel u \<and> count_unit ?sel u \<le> 2"
  proof
    fix u :: int assume u: "u \<in> {1, 2, 3, 4, 5}"
    from mx[OF f[OF u]] have "count_unit ?sel u \<le> 2" by (simp add: uc ureq_def)
    moreover from mn u have "1 \<le> count_unit ?sel u" by (auto simp: uc ureq_def)
    ultimately show "1 \<le> count_unit ?sel u \<and> count_unit ?sel u \<le> 2" by simp
  qed
  have units: "\<forall>q \<in> set ?sel. unit q \<in> {1, 2, 3, 4, 5}"
  proof
    fix q assume "q \<in> set ?sel"
    from mem[OF this] show "unit q \<in> {1, 2, 3, 4, 5}"
      by (auto simp: find_req_def ureq_def split: if_splits)
  qed
  then show "\<forall>u. u \<notin> {1, 2, 3, 4, 5} \<longrightarrow> count_unit ?sel u = 0"
    by (auto intro!: count_unit_0)
  from length_by_units5[OF units]
  show "length ?sel = count_unit ?sel 1 + count_unit ?sel 2 + count_unit ?sel 3
           + count_unit ?sel 4 + count_unit ?sel 5" .
qed

theorem generateQuestions_six_distinct_witness:
  "fst (generateQuestions ''mid1'' [] example_server) = Inr example_mid1 \<and>
   questionBank example_server = Some example_bank \<and> length example_mid1 = 6 \<and>
   set example_mid1 \<subseteq> set example_bank \<and> distinct (map qid example_mid1)"
proof -
  have h: "fst (generateQuestions ''mid1'' [] example_server) = Inr example_mid1"
    by code_simp
  have b: "questionBank example_server = Some example_bank"
    by (simp add: example_server_def)
  from generateQuestions_six_distinct[OF h] h b show ?thesis by simp
qed

text \<open>
  C2. Whenever \<open>generateQuestions\<close> returns, the numbers of selected questions per unit
  follow the table of the paper type. For \<open>mid1\<close>: 2 or 3 of unit 1, 2 or 3 of unit 2,
  exactly 1 of unit 3, none of another unit, 6 in all. For \<open>mid2\<close>: the same with the
  units 4, 5 and 3. For \<open>special\<close>: 1 or 2 of each unit from 1 to 5, none of another
  unit, 6 in all.
\<close>

theorem generateQuestions_unit_counts:
  assumes "fst (generateQuestions paperType g sv) = Inr selected"
  shows "(paperType = ''mid1'' \<longrightarrow>
            count_unit selected 1 \<in> {2, 3} \<and> count_unit selected 2 \<in> {2, 3} \<and>
            count_unit selected 3 = 1 \<and>
            (\<forall>u. u \<notin> {1, 2, 3} \<longrightarrow> count_unit selected u = 0) \<and>
            count_unit selected 1 + count_unit selected 2 + count_unit selected 3 = 6) \<and>
         (paperType = ''mid2'' \<longrightarrow>
            count_unit selected 4 \<in> {2, 3} \<and> count_unit selected 5 \<in> {2, 3} \<and>
            count_unit selected 3 = 1 \<and>
            (\<forall>u. u \<notin> {4, 5, 3} \<longrightarrow> count_unit selected u = 0) \<and>
            count_unit selected 4 + count_unit selected 5 + count_unit selected 3 = 6) \<and>
         (paperType = ''special'' \<longrightarrow>
            (\<forall>u \<in> {1, 2, 3, 4, 5}. 1 \<le> count_unit selected u \<and> count_unit selected u \<le> 2) \<and>
            (\<forall>u. u \<notin> {1, 2, 3, 4, 5} \<longrightarrow> count_unit selected u = 0) \<and>
            count_unit selected 1 + count_unit selected 2 + count_unit selected 3
              + count_unit selected 4 + count_unit selected 5 = 6)"
proof -
  from generateQuestions_Inr[OF assms] obtain bank btlReqs unitReqs where
    ur: "unitRequirements paperType = Inr unitReqs"
    and len: "length selected = 6"
    and sel: "selectQuestions bank btlReqs unitReqs g = Inr selected"
    by blast
  from selectQuestions_Inr[OF sel] obtain s where
    inv: "sel_inv bank unitReqs s" and s: "selectedQuestions s = selected"
    and val: "validate_minimums unitReqs s = None"
    by blast
  have m1: "paperType = ''mid1'' \<longrightarrow>
            count_unit selected 1 \<in> {2, 3} \<and> count_unit selected 2 \<in> {2, 3} \<and>
            count_unit selected 3 = 1 \<and>
            (\<forall>u. u \<notin> {1, 2, 3} \<longrightarrow> count_unit selected u = 0) \<and>
            count_unit selected 1 + count_unit selected 2 + count_unit selected 3 = 6"
  proof
    assume pt: "paperType = ''mid1''"
    from ur pt have R: "unitReqs = [ureq 1 2 3, ureq 2 2 3, ureq 3 1 1]"
      by (simp add: unitRequirements_def)
    note u = units3[OF inv[unfolded R] val[unfolded R], unfolded s]
    from u(1) u(2) u(3) have "count_unit selected 1 \<in> {2, 3}" "count_unit selected 2 \<in> {2, 3}"
      "count_unit selected 3 = 1" by auto
    moreover from u(4) have "\<forall>u. u \<notin> {1, 2, 3} \<longrightarrow> count_unit selected u = 0" by simp
    moreover from u(5) len
    have "count_unit selected 1 + count_unit selected 2 + count_unit selected 3 = 6" by simp
    ultimately show "count_unit selected 1 \<in> {2, 3} \<and> count_unit selected 2 \<in> {2, 3} \<and>
            count_unit selected 3 = 1 \<and>
            (\<forall>u. u \<notin> {1, 2, 3} \<longrightarrow> count_unit selected u = 0) \<and>
            count_unit selected 1 + count_unit selected 2 + count_unit selected 3 = 6"
      by blast
  qed
  have m2: "paperType = ''mid2'' \<longrightarrow>
            count_unit selected 4 \<in> {2, 3} \<and> count_unit selected 5 \<in> {2, 3} \<and>
            count_unit selected 3 = 1 \<and>
            (\<forall>u. u \<notin> {4, 5, 3} \<longrightarrow> count_unit selected u = 0) \<and>
            count_unit selected 4 + count_unit selected 5 + count_unit selected 3 = 6"
  proof
    assume pt: "paperType = ''mid2''"
    from ur pt have R: "unitReqs = [ureq 4 2 3, ureq 5 2 3, ureq 3 1 1]"
      by (simp add: unitRequirements_def)
    note u = units3[OF inv[unfolded R] val[unfolded R], unfolded s]
    from u(1) u(2) u(3) have "count_unit selected 4 \<in> {2, 3}" "count_unit selected 5 \<in> {2, 3}"
      "count_unit selected 3 = 1" by auto
    moreover from u(4) have "\<forall>u. u \<notin> {4, 5, 3} \<longrightarrow> count_unit selected u = 0" by simp
    moreover from u(5) len
    have "count_unit selected 4 + count_unit selected 5 + count_unit selected 3 = 6" by simp
    ultimately show "count_unit selected 4 \<in> {2, 3} \<and> count_unit selected 5 \<in> {2, 3} \<and>
            count_unit selected 3 = 1 \<and>
            (\<forall>u. u \<notin> {4, 5, 3} \<longrightarrow> count_unit selected u = 0) \<and>
            count_unit selected 4 + count_unit selected 5 + count_unit selected 3 = 6"
      by blast
  qed
  have sp: "paperType = ''special'' \<longrightarrow>
            (\<forall>u \<in> {1, 2, 3, 4, 5}. 1 \<le> count_unit selected u \<and> count_unit selected u \<le> 2) \<and>
            (\<forall>u. u \<notin> {1, 2, 3, 4, 5} \<longrightarrow> count_unit selected u = 0) \<and>
            count_unit selected 1 + count_unit selected 2 + count_unit selected 3
              + count_unit selected 4 + count_unit selected 5 = 6"
  proof
    assume pt: "paperType = ''special''"
    from ur pt have R: "unitReqs = [ureq 1 1 2, ureq 2 1 2, ureq 3 1 2, ureq 4 1 2, ureq 5 1 2]"
      by (simp add: unitRequirements_def)
    note u = units5[OF inv[unfolded R] val[unfolded R], unfolded s]
    from u(3) len have "count_unit selected 1 + count_unit selected 2 + count_unit selected 3
              + count_unit selected 4 + count_unit selected 5 = 6" by simp
    with u(1) u(2) show "(\<forall>u \<in> {1, 2, 3, 4, 5}. 1 \<le> count_unit selected u \<and> count_unit selected u \<le> 2) \<and>
            (\<forall>u. u \<notin> {1, 2, 3, 4, 5} \<longrightarrow> count_unit selected u = 0) \<and>
            count_unit selected 1 + count_unit selected 2 + count_unit selected 3
              + count_unit selected 4 + count_unit selected 5 = 6"
      by blast
  qed
  show ?thesis by (intro conjI) (rule m1, rule m2, rule sp)
qed

lemma count_level_append: "count_level (xs @ ys) l = count_level xs l + count_level ys l"
  by (simp add: count_level_def)

lemma count_levels_append: "count_levels (xs @ ys) ls = count_levels xs ls + count_levels ys ls"
  by (simp add: count_levels_def)

lemma count_level_same: "\<forall>q \<in> set qs. btLevel q = l \<Longrightarrow> count_level qs l = length qs"
  by (induction qs) (auto simp: count_level_def)

lemma count_level_other: "\<forall>q \<in> set qs. btLevel q \<noteq> l \<Longrightarrow> count_level qs l = 0"
  by (induction qs) (auto simp: count_level_def)

lemma count_levels_in: "\<forall>q \<in> set qs. btLevel q \<in> set ls \<Longrightarrow> count_levels qs ls = length qs"
  by (induction qs) (auto simp: count_levels_def)

lemma count_levels_out: "\<forall>q \<in> set qs. btLevel q \<notin> set ls \<Longrightarrow> count_levels qs ls = 0"
  by (induction qs) (auto simp: count_levels_def)

theorem generateQuestions_unit_counts_witness:
  "fst (generateQuestions ''mid1'' [] example_server) = Inr example_mid1 \<and>
   count_unit example_mid1 1 \<in> {2, 3} \<and> count_unit example_mid1 2 \<in> {2, 3} \<and>
   count_unit example_mid1 3 = 1 \<and>
   count_unit example_mid1 1 + count_unit example_mid1 2 + count_unit example_mid1 3 = 6 \<and>
   fst (generateQuestions ''mid2'' [] example_server) = Inr example_mid2 \<and>
   count_unit example_mid2 4 \<in> {2, 3} \<and> count_unit example_mid2 5 \<in> {2, 3} \<and>
   count_unit example_mid2 3 = 1 \<and>
   count_unit example_mid2 4 + count_unit example_mid2 5 + count_unit example_mid2 3 = 6 \<and>
   fst (generateQuestions ''special'' [0, 2, 1, 1, 0, 0, 0] example_server) = Inr example_special \<and>
   1 \<le> count_unit example_special 5 \<and> count_unit example_special 5 \<le> 2 \<and>
   count_unit example_special 1 + count_unit example_special 2 + count_unit example_special 3
     + count_unit example_special 4 + count_unit example_special 5 = 6"
proof -
  have h1: "fst (generateQuestions ''mid1'' [] example_server) = Inr example_mid1"
    by code_simp
  have h2: "fst (generateQuestions ''mid2'' [] example_server) = Inr example_mid2"
    by code_simp
  have h3: "fst (generateQuestions ''special'' [0, 2, 1, 1, 0, 0, 0] example_server)
              = Inr example_special"
    by code_simp
  from generateQuestions_unit_counts[OF h1] generateQuestions_unit_counts[OF h2]
    generateQuestions_unit_counts[OF h3] h1 h2 h3
  show ?thesis by simp
qed

text \<open>
  C3. When the largest level of the bank, read as an integer, is 6, every selection that
  \<open>generateQuestions\<close> returns has exactly 2 questions of level \<open>2\<close>, exactly 2 of
  level \<open>3\<close>, exactly 1 of level \<open>4\<close> and exactly 1 of a level among \<open>1\<close>, \<open>5\<close>
  and \<open>6\<close>.
\<close>

theorem schemeA_level_counts:
  assumes mx: "maxBTL bank = Some 6"
    and gen: "fst (generateQuestions paperType g \<lparr>questionBank = Some bank\<rparr>) = Inr selected"
  shows "count_level selected ''2'' = 2 \<and> count_level selected ''3'' = 2 \<and>
         count_level selected ''4'' = 1 \<and> count_levels selected [''1'', ''5'', ''6''] = 1"
proof -
  from generateQuestions_Inr[OF gen] obtain btlReqs unitReqs where
    br: "btlRequirements bank = Inr btlReqs"
    and sel: "selectQuestions bank btlReqs unitReqs g = Inr selected"
    by auto
  from br mx have A: "btlReqs = schemeA"
    by (auto simp: btlRequirements_def split: if_splits)
  from selectQuestions_Inr[OF sel] obtain qss where
    cat: "selected = concat qss"
    and all: "list_all2 (\<lambda>req qs. length qs = count req \<and> (\<forall>q \<in> set qs. req_matches req q))
                schemeA qss"
    unfolding A by blast
  from all obtain a b c d where
    qss: "qss = [a, b, c, d]"
    and la: "length a = 2" "\<forall>q \<in> set a. btLevel q = ''2''"
    and lb: "length b = 2" "\<forall>q \<in> set b. btLevel q = ''3''"
    and lc: "length c = 1" "\<forall>q \<in> set c. btLevel q = ''4''"
    and ld: "length d = 1" "\<forall>q \<in> set d. btLevel q \<in> set [''1'', ''5'', ''6'']"
    by (auto simp: schemeA_def fixed_req_def req_matches_def list_all2_Cons1)
  have sel4: "selected = a @ b @ c @ d" using cat qss by simp
  have a: "count_level a ''2'' = 2" "count_level a ''3'' = 0" "count_level a ''4'' = 0"
    "count_levels a [''1'', ''5'', ''6''] = 0"
    using la count_level_same[of a "''2''"] count_level_other[of a "''3''"]
      count_level_other[of a "''4''"] count_levels_out[of a "[''1'', ''5'', ''6'']"]
    by auto
  have b: "count_level b ''2'' = 0" "count_level b ''3'' = 2" "count_level b ''4'' = 0"
    "count_levels b [''1'', ''5'', ''6''] = 0"
    using lb count_level_same[of b "''3''"] count_level_other[of b "''2''"]
      count_level_other[of b "''4''"] count_levels_out[of b "[''1'', ''5'', ''6'']"]
    by auto
  have c: "count_level c ''2'' = 0" "count_level c ''3'' = 0" "count_level c ''4'' = 1"
    "count_levels c [''1'', ''5'', ''6''] = 0"
    using lc count_level_same[of c "''4''"] count_level_other[of c "''2''"]
      count_level_other[of c "''3''"] count_levels_out[of c "[''1'', ''5'', ''6'']"]
    by auto
  have d: "count_level d ''2'' = 0" "count_level d ''3'' = 0" "count_level d ''4'' = 0"
    "count_levels d [''1'', ''5'', ''6''] = 1"
  proof -
    from ld(2) have n: "\<forall>q \<in> set d. btLevel q \<noteq> ''2''" "\<forall>q \<in> set d. btLevel q \<noteq> ''3''"
      "\<forall>q \<in> set d. btLevel q \<noteq> ''4''" by auto
    from n(1) show "count_level d ''2'' = 0" by (rule count_level_other)
    from n(2) show "count_level d ''3'' = 0" by (rule count_level_other)
    from n(3) show "count_level d ''4'' = 0" by (rule count_level_other)
    from ld show "count_levels d [''1'', ''5'', ''6''] = 1" by (simp add: count_levels_in)
  qed
  have "count_level selected ''2'' = 2"
    by (simp add: sel4 count_level_append a b c d)
  moreover have "count_level selected ''3'' = 2"
    by (simp add: sel4 count_level_append a b c d)
  moreover have "count_level selected ''4'' = 1"
    by (simp add: sel4 count_level_append a b c d)
  moreover have "count_levels selected [''1'', ''5'', ''6''] = 1"
    by (simp add: sel4 count_levels_append a b c d)
  ultimately show ?thesis by simp
qed

theorem schemeA_level_counts_witness:
  "maxBTL example_bank = Some 6 \<and>
   fst (generateQuestions ''mid2'' [] \<lparr>questionBank = Some example_bank\<rparr>) = Inr example_mid2 \<and>
   count_level example_mid2 ''2'' = 2 \<and> count_level example_mid2 ''3'' = 2 \<and>
   count_level example_mid2 ''4'' = 1 \<and> count_levels example_mid2 [''1'', ''5'', ''6''] = 1"
proof -
  have m: "maxBTL example_bank = Some 6"
    by code_simp
  have h: "fst (generateQuestions ''mid2'' [] \<lparr>questionBank = Some example_bank\<rparr>) = Inr example_mid2"
    by code_simp
  from schemeA_level_counts[OF m h] m h show ?thesis by simp
qed

text \<open>
  C9. With a bank of fewer than six questions, \<open>generateQuestions\<close> throws the error
  of an insufficient bank, with its fixed message, whatever the paper type, the levels
  in the bank and the random draws are: neither the scheme nor the paper type is looked
  at before.
\<close>

theorem small_bank_insufficient:
  assumes "questionBank sv = Some bank" and "length bank < 6"
  shows "fst (generateQuestions paperType g sv) = Inl InsufficientBank \<and>
         message InsufficientBank =
           ''Insufficient questions in question bank. At least 6 questions are required.''"
  using assms by (simp add: generateQuestions_def)

theorem small_bank_insufficient_witness:
  "questionBank \<lparr>questionBank = Some (take 5 example_bank)\<rparr> = Some (take 5 example_bank) \<and>
   length (take 5 example_bank) < 6 \<and>
   fst (generateQuestions ''mid1'' [] \<lparr>questionBank = Some (take 5 example_bank)\<rparr>)
     = Inl InsufficientBank \<and>
   message InsufficientBank =
     ''Insufficient questions in question bank. At least 6 questions are required.''"
proof -
  have b: "questionBank \<lparr>questionBank = Some (take 5 example_bank)\<rparr> = Some (take 5 example_bank)"
    by simp
  have l: "length (take 5 example_bank) < 6"
    by simp
  from small_bank_insufficient[OF b l, of "''mid1''" "[]"] b l show ?thesis by simp
qed

section \<open>The normalizer\<close>

lemma map_rows_length: "map_rows n data = Inr qs \<Longrightarrow> length qs = length data"
  by (induction data arbitrary: n qs) (auto split: sum.splits)

lemma processExcelData_filter:
  "processExcelData data = Inr bank \<Longrightarrow>
   \<forall>q \<in> set bank. 1 \<le> unit q \<and> unit q \<le> 5 \<and> btLevel q \<noteq> ''0''"
  by (auto simp: processExcelData_def split: sum.splits)

text \<open>
  C4. Every record of the bank that \<open>processExcelData\<close> builds has a unit from 1 to 5
  and a label other than \<open>0\<close>, as the lemma above says. A row whose level is no
  number is not dropped, though the comment in the source says the level is made
  numeric: the row with unit 1 and level \<open>abc\<close>, which \<open>parseInt\<close> cannot read, is in
  the bank with the label \<open>abc\<close>.
\<close>

theorem processExcelData_keeps_unparseable:
  "processExcelData [abc_row] =
     Inr [\<lparr>qid = 1, unit = 1, question = Str ''Define a stack.'', btLevel = ''abc'',
           subjectCode = Str ''CS101'', subject = Str ''Algorithms'', branch = Str ''CSE'',
           regulation = Str ''R20'', year = Str ''II'', semester = Str ''I'', month = Str ''May'',
           imageUrl = []\<rparr>] \<and>
   parseInt ''abc'' = None"
  by code_simp

section \<open>The image proxy\<close>

text \<open>
  A fetch that succeeds with the content type \<open>text/html\<close> is answered with status 400
  and an error, not with the placeholder.
\<close>

theorem image_proxy_non_image_is_400:
  "api_image_proxy html_site (Some ''http://example.com/page'') =
     \<lparr>p_status = 400, p_body = NotAnImage ''URL does not point to an image'' ''text/html''\<rparr> \<and>
   p_status (api_image_proxy html_site (Some ''http://example.com/page'')) \<noteq> 200 \<and>
   p_body (api_image_proxy html_site (Some ''http://example.com/page'')) \<noteq> DataUrl placeholder"
proof -
  have "api_image_proxy html_site (Some ''http://example.com/page'') =
     \<lparr>p_status = 400, p_body = NotAnImage ''URL does not point to an image'' ''text/html''\<rparr>"
    by code_simp
  then show ?thesis by simp
qed

text \<open>
  C5, amended. For a request with a non-empty \<open>url\<close>: when the fetch fails, or its
  response has no content type, the answer is the placeholder data URL in the shape
  \<open>{ dataUrl }\<close> with status 200; when the response has a content type that does not
  start with \<open>image/\<close>, the answer has status 400 and the error
  \<open>URL does not point to an image\<close> with that content type.
\<close>

theorem image_proxy_fallback:
  assumes "u \<noteq> []"
  shows "(axios_get (getDirectImageURL u) = FetchFailed \<or>
          (\<exists>bytes. axios_get (getDirectImageURL u) = FetchOk None bytes) \<longrightarrow>
            api_image_proxy axios_get (Some u) = \<lparr>p_status = 200, p_body = DataUrl placeholder\<rparr>) \<and>
         (\<forall>ct bytes. axios_get (getDirectImageURL u) = FetchOk (Some ct) bytes \<and>
            \<not> starts_with ct ''image/'' \<longrightarrow>
            api_image_proxy axios_get (Some u) =
              \<lparr>p_status = 400, p_body = NotAnImage ''URL does not point to an image'' ct\<rparr>)"
  using assms by (auto simp: api_image_proxy_def Let_def)

theorem image_proxy_fallback_witness:
  "''http://example.com/page'' \<noteq> [] \<and>
   dead_site (getDirectImageURL ''http://example.com/page'') = FetchFailed \<and>
   api_image_proxy dead_site (Some ''http://example.com/page'') =
     \<lparr>p_status = 200, p_body = DataUrl placeholder\<rparr> \<and>
   html_site (getDirectImageURL ''http://example.com/page'') =
     FetchOk (Some ''text/html'') [60, 104, 116, 109, 108, 62] \<and>
   \<not> starts_with ''text/html'' ''image/'' \<and>
   api_image_proxy html_site (Some ''http://example.com/page'') =
     \<lparr>p_status = 400, p_body = NotAnImage ''URL does not point to an image'' ''text/html''\<rparr>"
proof -
  have n: "''http://example.com/page'' \<noteq> []" by simp
  have d: "dead_site (getDirectImageURL ''http://example.com/page'') = FetchFailed"
    by (simp add: dead_site_def)
  have h: "html_site (getDirectImageURL ''http://example.com/page'') =
     FetchOk (Some ''text/html'') [60, 104, 116, 109, 108, 62]"
    by (simp add: html_site_def)
  have s: "\<not> starts_with ''text/html'' ''image/''" by (simp add: starts_with_def)
  from image_proxy_fallback[OF n, of dead_site] image_proxy_fallback[OF n, of html_site] d h s
  show ?thesis by simp
qed

section \<open>The endpoint of generation\<close>

lemma unitRequirements_invalid:
  "paperType \<noteq> ''mid1'' \<Longrightarrow> paperType \<noteq> ''mid2'' \<Longrightarrow> paperType \<noteq> ''special'' \<Longrightarrow>
   unitRequirements paperType = Inl InvalidPaperType"
  by (simp add: unitRequirements_def)

lemma generateQuestions_invalid:
  assumes "unitRequirements paperType = Inl InvalidPaperType"
  shows "\<exists>e. generateQuestions paperType g sv = (Inl e, sv)"
  using assms by (auto simp: generateQuestions_def split: option.splits sum.splits)

text \<open>
  The paper type \<open>final\<close> on the example bank is answered with status 500, which is
  no status from 400 to 499.
\<close>

theorem invalid_paper_type_is_500:
  "fst (api_generate ''final'' [] example_server) =
     \<lparr>status = 500, body = ErrorJson ''Error generating questions: Invalid paper type''\<rparr> \<and>
   \<not> (400 \<le> status (fst (api_generate ''final'' [] example_server)) \<and>
      status (fst (api_generate ''final'' [] example_server)) < 500)"
proof -
  have "fst (api_generate ''final'' [] example_server) =
     \<lparr>status = 500, body = ErrorJson ''Error generating questions: Invalid paper type''\<rparr>"
    by code_simp
  then show ?thesis by simp
qed

text \<open>
  C6, amended. A generation request whose paper type is none of \<open>mid1\<close>, \<open>mid2\<close>,
  \<open>special\<close> is answered with an error and leaves the state unchanged; the status is
  400 when no bank is loaded and 500 otherwise; when the bank has at least six questions
  and its levels resolve to a scheme, the message is
  \<open>Error generating questions: Invalid paper type\<close>.
\<close>

theorem invalid_paper_type_rejected:
  assumes "paperType \<noteq> ''mid1''" "paperType \<noteq> ''mid2''" "paperType \<noteq> ''special''"
  shows "snd (api_generate paperType g sv) = sv \<and>
         (\<exists>msg. body (fst (api_generate paperType g sv)) = ErrorJson msg) \<and>
         status (fst (api_generate paperType g sv)) = (if questionBank sv = None then 400 else 500) \<and>
         (\<forall>bank reqs. questionBank sv = Some bank \<and> 6 \<le> length bank \<and>
             btlRequirements bank = Inr reqs \<longrightarrow>
             body (fst (api_generate paperType g sv)) =
               ErrorJson ''Error generating questions: Invalid paper type'')"
proof -
  note inv = unitRequirements_invalid[OF assms]
  from generateQuestions_invalid[OF inv] obtain e where
    e: "generateQuestions paperType g sv = (Inl e, sv)" by blast
  have 1: "snd (api_generate paperType g sv) = sv"
    using e by (simp add: api_generate_def)
  have 2: "\<exists>msg. body (fst (api_generate paperType g sv)) = ErrorJson msg"
    using e by (simp add: api_generate_def)
  have 3: "status (fst (api_generate paperType g sv)) = (if questionBank sv = None then 400 else 500)"
    using e by (simp add: api_generate_def)
  have 4: "\<forall>bank reqs. questionBank sv = Some bank \<and> 6 \<le> length bank \<and>
             btlRequirements bank = Inr reqs \<longrightarrow>
             body (fst (api_generate paperType g sv)) =
               ErrorJson ''Error generating questions: Invalid paper type''"
    using inv by (auto simp: api_generate_def generateQuestions_def)
  from 1 2 3 4 show ?thesis by blast
qed

theorem invalid_paper_type_rejected_witness:
  "''final'' \<noteq> ''mid1'' \<and> ''final'' \<noteq> ''mid2'' \<and> ''final'' \<noteq> ''special'' \<and>
   questionBank example_server = Some example_bank \<and> 6 \<le> length example_bank \<and>
   btlRequirements example_bank = Inr schemeA \<and>
   snd (api_generate ''final'' [] example_server) = example_server \<and>
   status (fst (api_generate ''final'' [] example_server)) = 500 \<and>
   body (fst (api_generate ''final'' [] example_server)) =
     ErrorJson ''Error generating questions: Invalid paper type''"
proof -
  have 1: "''final'' \<noteq> ''mid1''" and 2: "''final'' \<noteq> ''mid2''" and 3: "''final'' \<noteq> ''special''"
    by simp_all
  have b: "questionBank example_server = Some example_bank"
    by (simp add: example_server_def)
  have l: "6 \<le> length example_bank" by code_simp
  have r: "btlRequirements example_bank = Inr schemeA" by code_simp
  from invalid_paper_type_rejected[OF 1 2 3, of "[]" example_server] b l r
  show ?thesis by simp
qed

section \<open>Scheme resolution\<close>

text \<open>
  Three banks whose levels match no scheme and whose error is not the unsupported case:
  two questions of levels \<open>2\<close> and \<open>5\<close> (the bank is too small), six questions of
  the labels \<open>abc\<close> and \<open>def\<close> (no level is a positive number), six questions of
  levels \<open>2\<close>, \<open>5\<close> and \<open>constructor\<close> (the index of step 1 throws).
\<close>

theorem unsupported_not_always:
  "fst (generateQuestions ''mid1'' [] \<lparr>questionBank = Some two_question_bank\<rparr>) = Inl InsufficientBank \<and>
   fst (generateQuestions ''mid1'' [] \<lparr>questionBank = Some unparseable_bank\<rparr>) = Inl NoValidBTL \<and>
   fst (generateQuestions ''mid1'' [] \<lparr>questionBank = Some constructor_bank\<rparr>) =
     Inl (TypeError ''availableByUnitAndBTL[unit][q.btLevel].push is not a function'')"
  by code_simp

lemma fold_max_ge: "b \<le> fold max bs (b::int)"
proof (induction bs arbitrary: b)
  case Nil
  show ?case by simp
next
  case (Cons x xs)
  have "b \<le> max x b" by simp
  also have "max x b \<le> fold max xs (max x b)" by (rule Cons.IH)
  finally show ?case by simp
qed

lemma maxBTL_pos:
  assumes "maxBTL bank = Some m"
  shows "0 < m"
proof -
  from assms obtain b bs where bl: "btLevels bank = b # bs" and m: "m = fold max bs b"
    by (auto simp: maxBTL_def split: list.splits)
  have "b \<in> set (btLevels bank)" by (simp add: bl)
  then have "0 < b" by (simp add: btLevels_def)
  with fold_max_ge[of b bs] m show ?thesis by simp
qed

lemma Number_toString_small:
  "0 \<le> m \<Longrightarrow> m < 2 ^ 53 \<Longrightarrow> Number_toString m = show_int m"
  by (simp add: Number_toString_def to_double_def round_pos_def)

text \<open>
  C7, amended. For a bank of at least six questions, with no label that names a property
  of \<open>Object.prototype\<close> and with some label that is a positive number, whose largest
  level is below \<open>2 ^ 53\<close> and neither 6 nor 4 and which has not exactly one label in
  the units 1 to 5, \<open>generateQuestions\<close> throws, for every paper type and all random
  draws, the error \<open>Unsupported case\<close> that names this largest level, in decimal digits,
  and the labels in the order they were first seen; it returns no selection.
\<close>

theorem unsupported_case:
  assumes "questionBank sv = Some bank" "6 \<le> length bank" "\<not> index_fails bank"
    "maxBTL bank = Some m" "m < 2 ^ 53" "m \<noteq> 6" "m \<noteq> 4"
    "length (availableBTLs bank) \<noteq> 1"
  shows "fst (generateQuestions paperType g sv) = Inl (UnsupportedCase m (availableBTLs bank)) \<and>
         message (UnsupportedCase m (availableBTLs bank)) =
           ''Unsupported case: Max BTL = '' @ show_int m @ '' with multiple BTLs (''
             @ join_comma (availableBTLs bank)
             @ ''). Only Case i (max BTL = 6), Case ii (max BTL = 4), or Case iii (single BTL) are supported.''"
proof -
  from assms(8) have "\<And>l. availableBTLs bank \<noteq> [l]" by auto
  then have "(case availableBTLs bank of [l] \<Rightarrow> Inr (schemeC l) | ls \<Rightarrow> Inl (UnsupportedCase m ls))
      = Inl (UnsupportedCase m (availableBTLs bank))"
    by (auto split: list.splits)
  with assms(3,4,6,7) have "btlRequirements bank = Inl (UnsupportedCase m (availableBTLs bank))"
    by (simp add: btlRequirements_def)
  with assms(1,2) have 1: "fst (generateQuestions paperType g sv)
      = Inl (UnsupportedCase m (availableBTLs bank))"
    by (simp add: generateQuestions_def)
  from maxBTL_pos[OF assms(4)] assms(5) have 2: "Number_toString m = show_int m"
    by (simp add: Number_toString_small)
  from 1 2 show ?thesis by simp
qed

theorem unsupported_case_witness:
  "6 \<le> length unsupported_bank \<and> \<not> index_fails unsupported_bank \<and>
   maxBTL unsupported_bank = Some 5 \<and> (5::int) < 2 ^ 53 \<and>
   length (availableBTLs unsupported_bank) \<noteq> 1 \<and>
   fst (generateQuestions ''mid1'' [] \<lparr>questionBank = Some unsupported_bank\<rparr>) =
     Inl (UnsupportedCase 5 [''5'', ''2'']) \<and>
   message (UnsupportedCase 5 [''5'', ''2'']) =
     ''Unsupported case: Max BTL = 5 with multiple BTLs (5,2). Only Case i (max BTL = 6), Case ii (max BTL = 4), or Case iii (single BTL) are supported.''"
proof -
  have 1: "questionBank \<lparr>questionBank = Some unsupported_bank\<rparr> = Some unsupported_bank"
    by simp
  have 2: "6 \<le> length unsupported_bank"
    by code_simp
  have 3: "\<not> index_fails unsupported_bank"
    by code_simp
  have 4: "maxBTL unsupported_bank = Some 5"
    by code_simp
  have b: "(5::int) < 2 ^ 53"
    by simp
  have 5: "availableBTLs unsupported_bank = [''5'', ''2'']"
    by code_simp
  have 6: "length (availableBTLs unsupported_bank) \<noteq> 1"
    by (simp add: 5)
  have 7: "show_int 5 = ''5''"
    by code_simp
  from unsupported_case[OF 1 2 3 4 b _ _ 6, of "''mid1''" "[]"] 2 3 4 5 6 7
  show ?thesis by simp
qed

lemma set_indexed_subset: "set (indexed bank) \<subseteq> set bank"
  by (auto simp: indexed_def)

lemma set_indexed_units:
  "\<forall>q \<in> set bank. 1 \<le> unit q \<and> unit q \<le> 5 \<Longrightarrow> set (indexed bank) = set bank"
proof
  show "set (indexed bank) \<subseteq> set bank" by (rule set_indexed_subset)
next
  assume u: "\<forall>q \<in> set bank. 1 \<le> unit q \<and> unit q \<le> 5"
  show "set bank \<subseteq> set (indexed bank)"
  proof
    fix q assume q: "q \<in> set bank"
    with u have "unit q = 1 \<or> unit q = 2 \<or> unit q = 3 \<or> unit q = 4 \<or> unit q = 5" by auto
    with q show "q \<in> set (indexed bank)" by (auto simp: indexed_def)
  qed
qed

lemma set_foldl_set_add: "set (foldl set_add acc xs) = set acc \<union> set xs"
  by (induction xs arbitrary: acc) (auto simp: set_add_def)

lemma set_availableBTLs: "set (availableBTLs bank) = btLevel ` set (indexed bank)"
  by (simp add: availableBTLs_def set_foldl_set_add)

lemma fold_max_const: "\<forall>x \<in> set (b # bs). x = v \<Longrightarrow> fold max bs b = (v::int)"
  by (induction bs arbitrary: b) auto

lemma maxBTL_single:
  assumes "\<forall>q \<in> set bank. btLevel q = l" and "maxBTL bank = Some m"
  shows "m = parseInt_or0 l"
proof -
  from assms(2) obtain b bs where bl: "btLevels bank = b # bs" and m: "m = fold max bs b"
    by (auto simp: maxBTL_def split: list.splits)
  have "\<forall>x \<in> set (btLevels bank). x = parseInt_or0 l"
    using assms(1) by (auto simp: btLevels_def)
  with bl have "fold max bs b = parseInt_or0 l"
    by (intro fold_max_const) simp
  with m show ?thesis by simp
qed

lemma maxBTL_all:
  assumes "\<forall>q \<in> set bank. btLevel q = l" and "bank \<noteq> []" and "0 < parseInt_or0 l"
  shows "maxBTL bank = Some (parseInt_or0 l)"
proof -
  from assms(2) obtain q qs where b: "bank = q # qs" by (cases bank) auto
  with assms(1,3) have "btLevels bank \<noteq> []"
    by (auto simp: btLevels_def)
  then obtain m where "maxBTL bank = Some m"
    by (cases "btLevels bank") (simp_all add: maxBTL_def)
  with maxBTL_single[OF assms(1)] show ?thesis by simp
qed

lemma parse_six: "parseInt_or0 ''6'' = 6"
  by code_simp
lemma parse_four: "parseInt_or0 ''4'' = 4"
  by code_simp

lemma not_index_fails:
  assumes "\<forall>q \<in> set bank. btLevel q = l" and "l \<notin> set proto_keys"
  shows "\<not> index_fails bank"
  using assms set_indexed_subset[of bank] by (auto simp: index_fails_def list_ex_iff)

lemma six_not_proto: "''6'' \<notin> set proto_keys"
  by (simp add: proto_keys_def)
lemma four_not_proto: "''4'' \<notin> set proto_keys"
  by (simp add: proto_keys_def)

lemma availableCount_none:
  assumes "\<forall>q \<in> set bank. btLevel q \<noteq> lvl" and "btlCount s lvl = None"
  shows "availableCount bank unitReqs s lvl = 0"
proof -
  have z: "\<And>u. length (availableByUnitAndBTL bank u lvl) = 0"
    using assms(1) by (auto simp: availableByUnitAndBTL_def)
  have "\<And>acc. foldl (\<lambda>sum u. sum + int (length (availableByUnitAndBTL bank (req_unit u) lvl))
                       - int (btlCount_or0 s lvl)) acc unitReqs = acc"
    by (induction unitReqs) (simp_all add: z btlCount_or0_def assms(2))
  then show ?thesis by (simp add: availableCount_def)
qed

lemma no_level_two_fails:
  assumes "\<forall>q \<in> set bank. btLevel q \<noteq> ''2''"
    and "btlReqs = schemeA \<or> btlReqs = schemeB"
  shows "selectQuestions bank btlReqs unitReqs g = Inl (InsufficientBTL ''2'' 2 0)"
proof -
  have ac: "availableCount bank unitReqs (init_state bank g) ''2'' = 0"
    by (rule availableCount_none[OF assms(1)]) (simp add: init_state_def)
  have "process_req bank unitReqs (fixed_req ''2'' 2) (init_state bank g)
          = Inl (InsufficientBTL ''2'' 2 0)"
    by (simp add: process_req_def fixed_req_def ac)
  then have "process_reqs bank unitReqs btlReqs (init_state bank g) = Inl (InsufficientBTL ''2'' 2 0)"
    using assms(2) by (auto simp: schemeA_def schemeB_def)
  then show ?thesis by (simp add: selectQuestions_def)
qed

lemma schemeC_distinct: "schemeA \<noteq> schemeC l" "schemeB \<noteq> schemeC l"
  by (simp_all add: schemeA_def schemeB_def schemeC_def)

lemma btlRequirements_schemeC:
  assumes "btlRequirements bank = Inr (schemeC l)"
  shows "\<exists>m. maxBTL bank = Some m \<and> m \<noteq> 6 \<and> m \<noteq> 4 \<and> availableBTLs bank = [l]"
proof -
  from assms obtain m where m: "maxBTL bank = Some m"
    by (auto simp: btlRequirements_def split: if_splits option.splits)
  from assms m have m6: "m \<noteq> 6" and m4: "m \<noteq> 4"
    using schemeC_distinct[of l] by (auto simp: btlRequirements_def split: if_splits)
  from assms m m6 m4 have
    "(case availableBTLs bank of [l'] \<Rightarrow> Inr (schemeC l') | ls \<Rightarrow> Inl (UnsupportedCase m ls))
       = (Inr (schemeC l) :: error + btl_req list)"
    by (auto simp: btlRequirements_def split: if_splits)
  then have "availableBTLs bank = [l]"
    by (auto simp: schemeC_def fixed_req_def split: list.splits)
  with m m6 m4 show ?thesis by blast
qed

text \<open>
  C10, amended. For a bank of at least six questions that all have one label: with the
  label \<open>6\<close> the requirements are Scheme A, with the label \<open>4\<close> Scheme B, and in both
  cases \<open>generateQuestions\<close> throws, for each of the three paper types and all random
  draws, the error of the level \<open>2\<close> (need 2, found 0); and when all units are from 1
  to 5, Scheme C is chosen only for that one label and only when it reads as a number
  other than 6 and 4.
\<close>

theorem single_level_six_or_four:
  assumes len: "6 \<le> length bank"
    and lv: "\<forall>q \<in> set bank. btLevel q = l"
  shows "(l = ''6'' \<longrightarrow> btlRequirements bank = Inr schemeA) \<and>
         (l = ''4'' \<longrightarrow> btlRequirements bank = Inr schemeB) \<and>
         (l = ''6'' \<or> l = ''4'' \<longrightarrow>
            (\<forall>paperType g. paperType \<in> {''mid1'', ''mid2'', ''special''} \<longrightarrow>
               fst (generateQuestions paperType g \<lparr>questionBank = Some bank\<rparr>)
                 = Inl (InsufficientBTL ''2'' 2 0))) \<and>
         ((\<forall>q \<in> set bank. 1 \<le> unit q \<and> unit q \<le> 5) \<longrightarrow>
            (\<forall>l'. btlRequirements bank = Inr (schemeC l') \<longrightarrow>
               l' = l \<and> parseInt_or0 l \<noteq> 6 \<and> parseInt_or0 l \<noteq> 4))"
proof -
  from len have ne: "bank \<noteq> []" by auto
  have A: "btlRequirements bank = Inr schemeA" if l: "l = ''6''"
  proof -
    have "\<not> index_fails bank"
      using not_index_fails[OF lv] six_not_proto l by simp
    moreover have "maxBTL bank = Some 6"
      using maxBTL_all[OF lv ne] l parse_six by simp
    ultimately show ?thesis by (simp add: btlRequirements_def)
  qed
  have B: "btlRequirements bank = Inr schemeB" if l: "l = ''4''"
  proof -
    have "\<not> index_fails bank"
      using not_index_fails[OF lv] four_not_proto l by simp
    moreover have "maxBTL bank = Some 4"
      using maxBTL_all[OF lv ne] l parse_four by simp
    ultimately show ?thesis by (simp add: btlRequirements_def)
  qed
  have F: "fst (generateQuestions paperType g \<lparr>questionBank = Some bank\<rparr>)
             = Inl (InsufficientBTL ''2'' 2 0)"
    if l: "l = ''6'' \<or> l = ''4''" and pt: "paperType \<in> {''mid1'', ''mid2'', ''special''}"
    for paperType g
  proof -
    from l A B obtain reqs where r: "btlRequirements bank = Inr reqs"
      and rr: "reqs = schemeA \<or> reqs = schemeB" by blast
    from pt obtain ur where u: "unitRequirements paperType = Inr ur"
      by (auto simp: unitRequirements_def)
    from l lv have "\<forall>q \<in> set bank. btLevel q \<noteq> ''2''" by auto
    from no_level_two_fails[OF this rr]
    have "selectQuestions bank reqs ur g = Inl (InsufficientBTL ''2'' 2 0)" .
    with r u len show ?thesis by (simp add: generateQuestions_def)
  qed
  have C: "l' = l \<and> parseInt_or0 l \<noteq> 6 \<and> parseInt_or0 l \<noteq> 4"
    if un: "\<forall>q \<in> set bank. 1 \<le> unit q \<and> unit q \<le> 5"
      and c: "btlRequirements bank = Inr (schemeC l')" for l'
  proof -
    from btlRequirements_schemeC[OF c] obtain m where
      m: "maxBTL bank = Some m" "m \<noteq> 6" "m \<noteq> 4" and av: "availableBTLs bank = [l']"
      by blast
    from ne obtain q where q: "q \<in> set bank" by (cases bank) auto
    with set_indexed_units[OF un] have "btLevel q \<in> btLevel ` set (indexed bank)" by simp
    with av lv q have "l' = l" by (simp add: set_availableBTLs[symmetric])
    moreover from maxBTL_single[OF lv m(1)] m(2,3)
    have "parseInt_or0 l \<noteq> 6 \<and> parseInt_or0 l \<noteq> 4" by simp
    ultimately show ?thesis by simp
  qed
  from A B F C show ?thesis by blast
qed

theorem single_level_six_or_four_witness:
  "6 \<le> length all_six_bank \<and>
   map btLevel all_six_bank = [''6'', ''6'', ''6'', ''6'', ''6'', ''6''] \<and>
   btlRequirements all_six_bank = Inr schemeA \<and>
   fst (generateQuestions ''mid1'' [] \<lparr>questionBank = Some all_six_bank\<rparr>)
     = Inl (InsufficientBTL ''2'' 2 0) \<and>
   6 \<le> length all_three_bank \<and>
   map btLevel all_three_bank = [''3'', ''3'', ''3'', ''3'', ''3'', ''3''] \<and>
   map unit all_three_bank = [1, 1, 2, 2, 3, 3] \<and>
   btlRequirements all_three_bank = Inr (schemeC ''3'') \<and>
   parseInt_or0 ''3'' \<noteq> 6 \<and> parseInt_or0 ''3'' \<noteq> 4"
proof -
  have l6: "6 \<le> length all_six_bank"
    by code_simp
  have m6: "map btLevel all_six_bank = [''6'', ''6'', ''6'', ''6'', ''6'', ''6'']"
    by (simp add: all_six_bank_def mkq_def)
  have a6: "\<forall>q \<in> set all_six_bank. btLevel q = ''6''"
    by (simp add: all_six_bank_def mkq_def)
  have l3: "6 \<le> length all_three_bank"
    by code_simp
  have m3: "map btLevel all_three_bank = [''3'', ''3'', ''3'', ''3'', ''3'', ''3'']"
    by (simp add: all_three_bank_def mkq_def)
  have a3: "\<forall>q \<in> set all_three_bank. btLevel q = ''3''"
    by (simp add: all_three_bank_def mkq_def)
  have n3: "map unit all_three_bank = [1, 1, 2, 2, 3, 3]"
    by (simp add: all_three_bank_def mkq_def)
  have u3: "\<forall>q \<in> set all_three_bank. 1 \<le> unit q \<and> unit q \<le> 5"
    by (simp add: all_three_bank_def mkq_def)
  have c3: "btlRequirements all_three_bank = Inr (schemeC ''3'')"
    by code_simp
  from single_level_six_or_four[OF l6 a6] single_level_six_or_four[OF l3 a3] l6 m6 l3 m3 n3 u3 c3
  show ?thesis by simp
qed

text \<open>
  A bank of six questions of level \<open>6\<close> with the paper type \<open>final\<close> fails as an
  invalid paper type, and three questions of level \<open>6\<close> fail as too small a bank:
  neither fails on the quota of level \<open>2\<close>.
\<close>

theorem level_two_quota_not_always:
  "fst (generateQuestions ''final'' [] \<lparr>questionBank = Some all_six_bank\<rparr>) = Inl InvalidPaperType \<and>
   fst (generateQuestions ''mid1'' [] \<lparr>questionBank = Some (take 3 all_six_bank)\<rparr>) = Inl InsufficientBank"
  by code_simp

section \<open>The bank is left as it was\<close>

lemma extends_refl: "extends h h"
  by (simp add: extends_def)

lemma extends_trans:
  assumes "extends a b" and "extends b c"
  shows "extends a c"
proof -
  from assms have ab: "length a \<le> length b" and bc: "length b \<le> length c"
    and tb: "take (length a) b = a" and tc: "take (length b) c = b"
    by (simp_all add: extends_def)
  have "take (length a) c = take (length a) (take (length b) c)"
    using ab by (simp add: min_def)
  also have "\<dots> = a" by (simp add: tc tb)
  finally show ?thesis using ab bc by (simp add: extends_def)
qed

lemma extends_alloc:
  assumes "alloc xs h = (a, h')"
  shows "extends h h'" and "a = length h" and "deref h' a = xs"
  using assms by (auto simp: alloc_def extends_def deref_def)

lemma extends_push:
  assumes "extends h0 h" and "length h0 \<le> a"
  shows "extends h0 (array_push a q h)"
  using assms by (simp add: extends_def array_push_def)

lemma extends_deref:
  assumes "extends h0 h" and "a < length h0"
  shows "deref h a = deref h0 a"
proof -
  from assms have l: "length h0 \<le> length h" and t: "take (length h0) h = h0"
    by (simp_all add: extends_def)
  have "h ! a = take (length h0) h ! a" using assms(2) by simp
  with t l assms(2) show ?thesis by (simp add: deref_def)
qed

lemma index_forEach_frame:
  "extends h0 h \<Longrightarrow> index_fresh h0 ix \<Longrightarrow> index_forEach u qs ix h = (r, ix', h') \<Longrightarrow>
   extends h0 h' \<and> index_fresh h0 ix'"
proof (induction qs arbitrary: ix h)
  case Nil
  then show ?case by simp
next
  case (Cons q qs)
  show ?case
  proof (cases "btLevel q \<in> set proto_keys")
    case True
    with Cons.prems show ?thesis by simp
  next
    case False
    show ?thesis
    proof (cases "ix (u, btLevel q)")
      case None
      let ?h1 = "h @ [[]]"
      let ?ix1 = "ix((u, btLevel q) \<mapsto> length h)"
      from Cons.prems(3) False None
      have run: "index_forEach u qs ?ix1 (array_push (length h) q ?h1) = (r, ix', h')"
        by (simp add: alloc_def)
      from Cons.prems(1) have le: "length h0 \<le> length h" by (simp add: extends_def)
      have "extends h ?h1" by (simp add: extends_def)
      with Cons.prems(1) have "extends h0 ?h1" by (rule extends_trans)
      then have e: "extends h0 (array_push (length h) q ?h1)"
        using le by (rule extends_push)
      have f: "index_fresh h0 ?ix1"
        using Cons.prems(2) le by (auto simp: index_fresh_def)
      from Cons.IH[OF e f run] show ?thesis .
    next
      case (Some a)
      from Cons.prems(3) False Some
      have run: "index_forEach u qs ix (array_push a q h) = (r, ix', h')"
        by simp
      from Cons.prems(2) Some have "length h0 \<le> a" by (auto simp: index_fresh_def)
      with Cons.prems(1) have e: "extends h0 (array_push a q h)" by (rule extends_push)
      from Cons.IH[OF e Cons.prems(2) run] show ?thesis .
    qed
  qed
qed

lemma index_units_frame:
  "extends h0 h \<Longrightarrow> index_fresh h0 ix \<Longrightarrow> index_units us b ix h = (r, ix', h') \<Longrightarrow>
   extends h0 h' \<and> index_fresh h0 ix'"
proof (induction us arbitrary: ix h)
  case Nil
  then show ?case by simp
next
  case (Cons u us)
  let ?h1 = "h @ [filter (\<lambda>q. unit q = u) (deref h b)]"
  have "extends h ?h1" by (simp add: extends_def)
  with Cons.prems(1) have e1: "extends h0 ?h1" by (rule extends_trans)
  obtain r1 ix1 h2 where fe: "index_forEach u (deref ?h1 (length h)) ix ?h1 = (r1, ix1, h2)"
    by (cases "index_forEach u (deref ?h1 (length h)) ix ?h1") auto
  from index_forEach_frame[OF e1 Cons.prems(2) fe]
  have e2: "extends h0 h2" and f2: "index_fresh h0 ix1" by simp_all
  show ?case
  proof (cases r1)
    case None
    with Cons.prems(3) fe have "index_units us b ix1 h2 = (r, ix', h')"
      by (simp add: alloc_def)
    from Cons.IH[OF e2 f2 this] show ?thesis .
  next
    case (Some e)
    with Cons.prems(3) fe have "ix' = ix1" "h' = h2"
      by (simp_all add: alloc_def)
    with e2 f2 show ?thesis by simp
  qed
qed

lemma sel_fresh_rng: "sel_fresh h0 (s\<lparr>s_rng := g\<rparr>) = sel_fresh h0 s"
  by (simp add: sel_fresh_def)

lemma pickQuestion_s_frame:
  assumes "sel_fresh h0 s" and "pickQuestion_s unitReqs btl s = (r, s')"
  shows "sel_fresh h0 s'"
proof -
  let ?h1 = "s_arrays s @ [available unitReqs (view s) btl]"
  from assms(1) have e0: "extends h0 (s_arrays s)" and a0: "length h0 \<le> selectedQuestions_ref s"
    by (simp_all add: sel_fresh_def)
  have "extends (s_arrays s) ?h1" by (simp add: extends_def)
  with e0 have e1: "extends h0 ?h1" by (rule extends_trans)
  show ?thesis
  proof (cases "deref ?h1 (length (s_arrays s)) = []")
    case True
    with assms(2) have "s' = s\<lparr>s_arrays := ?h1\<rparr>"
      by (simp add: pickQuestion_s_def alloc_def)
    with e1 a0 show ?thesis by (simp add: sel_fresh_def)
  next
    case False
    with assms(2) obtain xs where
      "s_arrays s' = ?h1 @ [xs]" "selectedQuestions_ref s' = selectedQuestions_ref s"
      by (auto simp: pickQuestion_s_def alloc_def Let_def split: prod.splits)
    moreover have "extends ?h1 (?h1 @ [xs])" for xs by (simp add: extends_def)
    ultimately show ?thesis
      using e1 a0 extends_trans[OF e1] by (simp add: sel_fresh_def)
  qed
qed

lemma push_s_frame: "sel_fresh h0 s \<Longrightarrow> sel_fresh h0 (push_s q s)"
  by (simp add: sel_fresh_def push_s_def extends_push)

lemma pick_fixed_s_frame:
  "sel_fresh h0 s \<Longrightarrow> pick_fixed_s unitReqs lvl n s = (r, s') \<Longrightarrow> sel_fresh h0 s'"
proof (induction n arbitrary: s)
  case 0
  then show ?case by simp
next
  case (Suc n)
  obtain o1 s1 where p: "pickQuestion_s unitReqs lvl s = (o1, s1)"
    by (cases "pickQuestion_s unitReqs lvl s") auto
  from pickQuestion_s_frame[OF Suc.prems(1) p] have f1: "sel_fresh h0 s1" .
  show ?case
  proof (cases o1)
    case None
    with Suc.prems(2) p f1 show ?thesis by simp
  next
    case (Some q)
    with Suc.prems(2) p have "pick_fixed_s unitReqs lvl n (push_s q s1) = (r, s')" by simp
    from Suc.IH[OF push_s_frame[OF f1] this] show ?thesis .
  qed
qed

lemma pick_random_s_frame:
  "sel_fresh h0 s \<Longrightarrow> pick_random_s unitReqs randomBTLs n s = (r, s') \<Longrightarrow> sel_fresh h0 s'"
proof (induction n arbitrary: s)
  case 0
  then show ?case by simp
next
  case (Suc n)
  let ?i = "fst (random_index (length randomBTLs) (s_rng s))"
  let ?g = "snd (random_index (length randomBTLs) (s_rng s))"
  obtain o1 s1 where p: "pickQuestion_s unitReqs (randomBTLs ! ?i) (s\<lparr>s_rng := ?g\<rparr>) = (o1, s1)"
    by (cases "pickQuestion_s unitReqs (randomBTLs ! ?i) (s\<lparr>s_rng := ?g\<rparr>)") auto
  have "sel_fresh h0 (s\<lparr>s_rng := ?g\<rparr>)" using Suc.prems(1) by (simp add: sel_fresh_rng)
  from pickQuestion_s_frame[OF this p] have f1: "sel_fresh h0 s1" .
  show ?case
  proof (cases o1)
    case None
    with Suc.prems(2) p f1 show ?thesis by (simp add: Let_def split: prod.splits)
  next
    case (Some q)
    with Suc.prems(2) p have "pick_random_s unitReqs randomBTLs n (push_s q s1) = (r, s')"
      by (simp add: Let_def split: prod.splits)
    from Suc.IH[OF push_s_frame[OF f1] this] show ?thesis .
  qed
qed

lemma process_req_s_frame:
  assumes "sel_fresh h0 s" and "process_req_s ix unitReqs req s = (r, s')"
  shows "sel_fresh h0 s'"
  using assms pick_fixed_s_frame[OF assms(1)] pick_random_s_frame[OF assms(1)]
  by (auto simp: process_req_s_def Let_def split: if_splits option.splits)

lemma process_reqs_s_frame:
  "sel_fresh h0 s \<Longrightarrow> process_reqs_s ix unitReqs reqs s = (r, s') \<Longrightarrow> sel_fresh h0 s'"
proof (induction reqs arbitrary: s)
  case Nil
  then show ?case by simp
next
  case (Cons req reqs)
  obtain o1 s1 where p: "process_req_s ix unitReqs req s = (o1, s1)"
    by (cases "process_req_s ix unitReqs req s") auto
  from process_req_s_frame[OF Cons.prems(1) p] have f1: "sel_fresh h0 s1" .
  show ?case
  proof (cases o1)
    case None
    with Cons.prems(2) p have "process_reqs_s ix unitReqs reqs s1 = (r, s')" by simp
    from Cons.IH[OF f1 this] show ?thesis .
  next
    case (Some e)
    with Cons.prems(2) p f1 show ?thesis by simp
  qed
qed

lemma selectQuestions_s_frame:
  assumes "extends h0 h" and "selectQuestions_s b ix btlReqs unitReqs g h = (r, h')"
  shows "extends h0 h'"
proof -
  let ?h1 = "h @ [[]]"
  let ?h2 = "?h1 @ [deref ?h1 b]"
  let ?s0 = "\<lparr>selectedQuestions_ref = length h, remainingQuestions_ref = length ?h1,
                s_unitCount = (\<lambda>u. 0), s_btlCount = Map.empty, s_rng = g, s_arrays = ?h2\<rparr>"
  have "extends h ?h1" "extends ?h1 ?h2" by (simp_all add: extends_def)
  with assms(1) have "extends h0 ?h2" by (blast intro: extends_trans)
  moreover from assms(1) have "length h0 \<le> length h" by (simp add: extends_def)
  ultimately have f0: "sel_fresh h0 ?s0" by (simp add: sel_fresh_def)
  obtain o1 s1 where p: "process_reqs_s ix unitReqs btlReqs ?s0 = (o1, s1)"
    by (cases "process_reqs_s ix unitReqs btlReqs ?s0") auto
  from process_reqs_s_frame[OF f0 p] have "extends h0 (s_arrays s1)"
    by (simp add: sel_fresh_def)
  moreover from assms(2) p have "h' = s_arrays s1"
    by (auto simp: selectQuestions_s_def alloc_def Let_def split: option.splits)
  ultimately show ?thesis by simp
qed

lemma generateQuestions_store_frame:
  "questionBank_ref (snd (generateQuestions_store paperType g st)) = questionBank_ref st \<and>
   extends (arrays st) (arrays (snd (generateQuestions_store paperType g st)))"
proof (cases "questionBank_ref st")
  case None
  then show ?thesis by (simp add: generateQuestions_store_def extends_refl)
next
  case (Some b)
  show ?thesis
  proof (cases "length (deref (arrays st) b) < 6")
    case True
    with Some show ?thesis by (simp add: generateQuestions_store_def extends_refl)
  next
    case False
    obtain o1 ix h1 where iu: "index_units [1, 2, 3, 4, 5] b Map.empty (arrays st) = (o1, ix, h1)"
      by (cases "index_units [1, 2, 3, 4, 5] b Map.empty (arrays st)") auto
    have "index_fresh (arrays st) Map.empty" by (simp add: index_fresh_def)
    from index_units_frame[OF extends_refl this iu] have e1: "extends (arrays st) h1" by simp
    have sq: "extends (arrays st) h2"
      if "selectQuestions_s b ix btlReqs unitReqs g h1 = (r, h2)" for btlReqs unitReqs r h2
      using selectQuestions_s_frame[OF e1 that] .
    show ?thesis
      using Some False iu e1 sq
      by (auto simp: generateQuestions_store_def split: option.splits sum.splits prod.splits)
  qed
qed

section \<open>The store and the lists compute the same\<close>

lemma push_new: "array_push (length h) q (h @ [[]]) = h @ [[q]]"
  by (simp add: array_push_def deref_def)

lemma deref_append_old: "a < length h \<Longrightarrow> deref (h @ xs) a = deref h a"
  by (simp add: deref_def nth_append)

lemma deref_append_new: "deref (h @ [x]) (length h) = x"
  by (simp add: deref_def)

lemma deref_append_new2: "deref (h @ [x, y]) (Suc (length h)) = y"
  by (simp add: deref_def nth_append)

lemma deref_push_same: "a < length h \<Longrightarrow> deref (array_push a q h) a = deref h a @ [q]"
  by (simp add: array_push_def deref_def)

lemma deref_push_other: "a' \<noteq> a \<Longrightarrow> deref (array_push a q h) a' = deref h a'"
  by (simp add: array_push_def deref_def)

lemma length_push: "length (array_push a q h) = length h"
  by (simp add: array_push_def)

lemma index_ok_alloc:
  assumes "index_ok h0 ix h done"
  shows "index_ok h0 ix (h @ [xs]) done"
proof -
  from assms have e: "extends h0 h"
    and b: "\<And>k a. ix k = Some a \<Longrightarrow> length h0 \<le> a \<and> a < length h"
    and i: "\<And>k k' a. ix k = Some a \<Longrightarrow> ix k' = Some a \<Longrightarrow> k = k'"
    and c: "\<And>k. index_array ix h k = filter (\<lambda>q. (unit q, btLevel q) = k) done"
    unfolding index_ok_def by blast+
  have "extends h (h @ [xs])" by (simp add: extends_def)
  with e have e': "extends h0 (h @ [xs])" by (rule extends_trans)
  have c': "index_array ix (h @ [xs]) k = filter (\<lambda>q. (unit q, btLevel q) = k) done" for k
  proof (cases "ix k")
    case None
    with c[of k] show ?thesis by (simp add: index_array_def)
  next
    case (Some a)
    with b have "a < length h" by blast
    with c[of k] Some show ?thesis by (simp add: index_array_def deref_append_old)
  qed
  from e' b i c' show ?thesis unfolding index_ok_def by (auto simp: less_Suc_eq)
qed

lemma index_ok_step:
  assumes ok: "index_ok h0 ix h done"
    and step: "(case ix (unit q, btLevel q) of
                  None \<Rightarrow> (let (a, h') = alloc [] h in (a, ix((unit q, btLevel q) \<mapsto> a), h'))
                | Some a \<Rightarrow> (a, ix, h)) = (a, ix1, h1)"
  shows "index_ok h0 ix1 (array_push a q h1) (done @ [q])"
proof -
  let ?k = "(unit q, btLevel q)"
  from ok have e: "extends h0 h"
    and b: "\<And>k a. ix k = Some a \<Longrightarrow> length h0 \<le> a \<and> a < length h"
    and i: "\<And>k k' a. ix k = Some a \<Longrightarrow> ix k' = Some a \<Longrightarrow> k = k'"
    and c: "\<And>k. index_array ix h k = filter (\<lambda>q. (unit q, btLevel q) = k) done"
    unfolding index_ok_def by blast+
  from e have le: "length h0 \<le> length h" by (simp add: extends_def)
  show ?thesis
  proof (cases "ix ?k")
    case None
    with step have a: "a = length h" and ix1: "ix1 = ix(?k \<mapsto> length h)" and h1: "h1 = h @ [[]]"
      by (auto simp: alloc_def)
    have h2: "array_push a q h1 = h @ [[q]]" by (simp add: a h1 push_new)
    have "extends h (h @ [[q]])" by (simp add: extends_def)
    with e have e2: "extends h0 (h @ [[q]])" by (rule extends_trans)
    have b2: "length h0 \<le> a' \<and> a' < length (h @ [[q]])" if "ix1 k = Some a'" for k a'
      using that b[of k a'] le by (auto simp: ix1 split: if_splits)
    have i2: "k = k'" if "ix1 k = Some a'" "ix1 k' = Some a'" for k k' a'
      using that b[of k a'] b[of k' a'] i[of k a' k'] by (auto simp: ix1 split: if_splits)
    have c2: "index_array ix1 (h @ [[q]]) k = filter (\<lambda>q. (unit q, btLevel q) = k) (done @ [q])" for k
    proof (cases "k = ?k")
      case True
      from c[of ?k] None have "filter (\<lambda>q'. (unit q', btLevel q') = ?k) done = []"
        by (simp add: index_array_def)
      with True show ?thesis by (simp add: index_array_def ix1 deref_append_new)
    next
      case False
      then have nk: "(unit q, btLevel q) \<noteq> k" by auto
      show ?thesis
      proof (cases "ix k")
        case None
        with c[of k] False nk show ?thesis by (simp add: index_array_def ix1)
      next
        case (Some a')
        with b have "a' < length h" by blast
        with c[of k] Some False nk show ?thesis
          by (simp add: index_array_def ix1 deref_append_old)
      qed
    qed
    from e2 b2 i2 c2 show ?thesis unfolding index_ok_def h2 by blast
  next
    case (Some a0)
    with step have a: "a = a0" and ix1: "ix1 = ix" and h1: "h1 = h" by auto
    from b[OF Some] have a0: "length h0 \<le> a0" "a0 < length h" by simp_all
    from e a0(1) have e2: "extends h0 (array_push a0 q h)" by (rule extends_push)
    have b2: "length h0 \<le> a' \<and> a' < length (array_push a0 q h)" if "ix k = Some a'" for k a'
      using b[OF that] by (simp add: length_push)
    have c2: "index_array ix (array_push a0 q h) k
                = filter (\<lambda>q. (unit q, btLevel q) = k) (done @ [q])" for k
    proof (cases "k = ?k")
      case True
      with c[of ?k] Some a0(2) show ?thesis by (simp add: index_array_def deref_push_same)
    next
      case False
      then have nk: "(unit q, btLevel q) \<noteq> k" by auto
      show ?thesis
      proof (cases "ix k")
        case None
        with c[of k] nk show ?thesis by (simp add: index_array_def)
      next
        case (Some a')
        have "a' \<noteq> a0"
        proof
          assume "a' = a0"
          with Some \<open>ix ?k = Some a0\<close> have "k = ?k" using i[of k a0 ?k] by simp
          with False show False by simp
        qed
        with c[of k] Some nk show ?thesis by (simp add: index_array_def deref_push_other)
      qed
    qed
    from e2 b2 i c2 show ?thesis unfolding index_ok_def a ix1 h1 by blast
  qed
qed

lemma index_forEach_ok:
  "index_ok h0 ix h done \<Longrightarrow> \<forall>q \<in> set qs. unit q = u \<Longrightarrow>
   index_forEach u qs ix h = (r, ix', h') \<Longrightarrow>
   (list_ex (\<lambda>q. btLevel q \<in> set proto_keys) qs \<longrightarrow>
      r = Some (TypeError ''availableByUnitAndBTL[unit][q.btLevel].push is not a function'')) \<and>
   (\<not> list_ex (\<lambda>q. btLevel q \<in> set proto_keys) qs \<longrightarrow>
      r = None \<and> index_ok h0 ix' h' (done @ qs))"
proof (induction qs arbitrary: ix h "done")
  case Nil
  then show ?case by simp
next
  case (Cons q qs)
  show ?case
  proof (cases "btLevel q \<in> set proto_keys")
    case True
    with Cons.prems(3) show ?thesis by simp
  next
    case False
    from Cons.prems(2) have u: "unit q = u" and us: "\<forall>q \<in> set qs. unit q = u" by simp_all
    obtain a ix1 h1 where
      st: "(case ix (u, btLevel q) of
              None \<Rightarrow> (let (a, h') = alloc [] h in (a, ix((u, btLevel q) \<mapsto> a), h'))
            | Some a \<Rightarrow> (a, ix, h)) = (a, ix1, h1)"
      using prod_cases3 by blast
    from Cons.prems(3) False st
    have run: "index_forEach u qs ix1 (array_push a q h1) = (r, ix', h')"
      by simp
    from st have st': "(case ix (unit q, btLevel q) of
              None \<Rightarrow> (let (a, h') = alloc [] h in (a, ix((unit q, btLevel q) \<mapsto> a), h'))
            | Some a \<Rightarrow> (a, ix, h)) = (a, ix1, h1)"
      unfolding u .
    from index_ok_step[OF Cons.prems(1) st']
    have ok1: "index_ok h0 ix1 (array_push a q h1) (done @ [q])" .
    have app: "(done @ [q]) @ qs = done @ q # qs" by simp
    from Cons.IH[OF ok1 us run] False show ?thesis
      unfolding app by simp
  qed
qed

lemma index_units_ok:
  "index_ok h0 ix h done \<Longrightarrow> b < length h0 \<Longrightarrow> index_units us b ix h = (r, ix', h') \<Longrightarrow>
   (list_ex (\<lambda>q. btLevel q \<in> set proto_keys)
         (concat (map (\<lambda>u. filter (\<lambda>q. unit q = u) (deref h0 b)) us)) \<longrightarrow>
      r = Some (TypeError ''availableByUnitAndBTL[unit][q.btLevel].push is not a function'')) \<and>
   (\<not> list_ex (\<lambda>q. btLevel q \<in> set proto_keys)
         (concat (map (\<lambda>u. filter (\<lambda>q. unit q = u) (deref h0 b)) us)) \<longrightarrow>
      r = None \<and>
      index_ok h0 ix' h' (done @ concat (map (\<lambda>u. filter (\<lambda>q. unit q = u) (deref h0 b)) us)))"
proof (induction us arbitrary: ix h "done")
  case Nil
  then show ?case by simp
next
  case (Cons u us)
  let ?P = "\<lambda>q. btLevel q \<in> set proto_keys"
  let ?qs = "filter (\<lambda>q. unit q = u) (deref h0 b)"
  let ?rest = "concat (map (\<lambda>u. filter (\<lambda>q. unit q = u) (deref h0 b)) us)"
  let ?h1 = "h @ [?qs]"
  have all: "concat (map (\<lambda>u. filter (\<lambda>q. unit q = u) (deref h0 b)) (u # us)) = ?qs @ ?rest"
    by simp
  have ex: "list_ex ?P (?qs @ ?rest) = (list_ex ?P ?qs \<or> list_ex ?P ?rest)"
    by (rule list_ex_append)
  from Cons.prems(1) have e: "extends h0 h" by (simp add: index_ok_def)
  from extends_deref[OF e Cons.prems(2)] have db: "deref h b = deref h0 b" .
  from index_ok_alloc[OF Cons.prems(1)] have ok1: "index_ok h0 ix ?h1 done" .
  obtain r1 ix1 h2 where fe: "index_forEach u ?qs ix ?h1 = (r1, ix1, h2)"
    using prod_cases3 by blast
  have uq: "\<forall>q \<in> set ?qs. unit q = u" by simp
  note fo = index_forEach_ok[OF ok1 uq fe]
  show ?case
  proof (cases "list_ex ?P ?qs")
    case True
    with fo have "r1 = Some (TypeError ''availableByUnitAndBTL[unit][q.btLevel].push is not a function'')"
      by simp
    with Cons.prems(3) fe db have
      "r = Some (TypeError ''availableByUnitAndBTL[unit][q.btLevel].push is not a function'')"
      by (simp add: alloc_def deref_append_new)
    with True show ?thesis unfolding all ex by simp
  next
    case False
    with fo have r1: "r1 = None" and ok2: "index_ok h0 ix1 h2 (done @ ?qs)" by simp_all
    from Cons.prems(3) fe db r1 have run: "index_units us b ix1 h2 = (r, ix', h')"
      by (simp add: alloc_def deref_append_new)
    have app: "(done @ ?qs) @ ?rest = done @ ?qs @ ?rest" by simp
    from Cons.IH[OF ok2 Cons.prems(2) run] False show ?thesis
      unfolding all ex app by simp
  qed
qed

lemma filter_unit_level:
  "filter (\<lambda>q. (unit q, btLevel q) = (u, l)) (filter (\<lambda>q. unit q = v) bank)
     = (if u = v then filter (\<lambda>q. unit q = u \<and> btLevel q = l) bank else [])"
  by (induction bank) auto

lemma filter_indexed:
  assumes "u = 1 \<or> u = 2 \<or> u = 3 \<or> u = 4 \<or> u = 5"
  shows "filter (\<lambda>q. (unit q, btLevel q) = (u, l)) (indexed bank) = availableByUnitAndBTL bank u l"
proof -
  have "filter (\<lambda>q. (unit q, btLevel q) = (u, l)) (indexed bank)
      = concat (map (\<lambda>v. if u = v then filter (\<lambda>q. unit q = u \<and> btLevel q = l) bank else [])
          [1, 2, 3, 4, 5])"
    unfolding indexed_def filter_concat map_map o_def filter_unit_level ..
  also have "\<dots> = filter (\<lambda>q. unit q = u \<and> btLevel q = l) bank"
    using assms by (elim disjE) simp_all
  finally show ?thesis by (simp add: availableByUnitAndBTL_def)
qed

lemma index_build:
  assumes b: "b < length h0"
    and iu: "index_units [1, 2, 3, 4, 5] b Map.empty h0 = (r, ix, h1)"
  shows "(index_fails (deref h0 b) \<longrightarrow>
           r = Some (TypeError ''availableByUnitAndBTL[unit][q.btLevel].push is not a function'')) \<and>
         (\<not> index_fails (deref h0 b) \<longrightarrow> r = None \<and> index_ok h0 ix h1 (indexed (deref h0 b)))"
proof -
  have "index_ok h0 Map.empty h0 []"
    by (simp add: index_ok_def extends_refl index_array_def)
  from index_units_ok[OF this b iu] show ?thesis
    unfolding index_fails_def indexed_def append_Nil .
qed

lemma index_length_eq:
  assumes ok: "index_ok h0 ix h1 (indexed bank)" and e: "extends h1 h"
    and u: "u = 1 \<or> u = 2 \<or> u = 3 \<or> u = 4 \<or> u = 5"
  shows "index_length ix h u l = length (availableByUnitAndBTL bank u l)"
proof -
  from ok have b: "\<And>k a. ix k = Some a \<Longrightarrow> a < length h1"
    and c: "\<And>k. index_array ix h1 k = filter (\<lambda>q. (unit q, btLevel q) = k) (indexed bank)"
    unfolding index_ok_def by blast+
  have "index_array ix h (u, l) = index_array ix h1 (u, l)"
  proof (cases "ix (u, l)")
    case None
    then show ?thesis by (simp add: index_array_def)
  next
    case (Some a)
    with extends_deref[OF e b[OF Some]] show ?thesis by (simp add: index_array_def)
  qed
  with c[of "(u, l)"] filter_indexed[OF u, of l bank]
  have "index_array ix h (u, l) = availableByUnitAndBTL bank u l" by simp
  then show ?thesis by (simp add: index_length_def index_array_def split: option.splits)
qed

lemma view_rng: "view (s\<lparr>s_rng := g\<rparr>) = (view s)\<lparr>rng := g\<rparr>"
  by (simp add: view_def)

lemma sel_ok_rng: "sel_ok h1 (s\<lparr>s_rng := g\<rparr>) = sel_ok h1 s"
  by (simp add: sel_ok_def)

lemma pickQuestion_s_refine:
  assumes ok: "sel_ok h1 s" and run: "pickQuestion_s unitReqs btl s = (r, s')"
  shows "pickQuestion unitReqs btl (view s) = (r, view s')" and "sel_ok h1 s'"
proof -
  let ?h = "s_arrays s"
  let ?av = "available unitReqs (view s) btl"
  let ?ha = "?h @ [?av]"
  from ok have e: "extends h1 ?h" and s1: "length h1 \<le> selectedQuestions_ref s"
    and s2: "selectedQuestions_ref s < length ?h" and r2: "remainingQuestions_ref s < length ?h"
    and ne: "selectedQuestions_ref s \<noteq> remainingQuestions_ref s"
    by (simp_all add: sel_ok_def)
  have ea: "extends h1 ?ha"
    using e by (rule extends_trans) (simp add: extends_def)
  have da: "deref ?ha (length ?h) = ?av" by (rule deref_append_new)
  show "pickQuestion unitReqs btl (view s) = (r, view s')"
  proof (cases "?av = []")
    case True
    with run have "r = None" "s' = s\<lparr>s_arrays := ?ha\<rparr>"
      by (auto simp: pickQuestion_s_def alloc_def deref_append_new)
    moreover have "view (s\<lparr>s_arrays := ?ha\<rparr>) = view s"
      using s2 r2 by (simp add: view_def deref_append_old)
    ultimately show ?thesis using True by (simp add: pickQuestion_def)
  next
    case False
    let ?idx = "fst (random_index (length ?av) (s_rng s))"
    let ?g = "snd (random_index (length ?av) (s_rng s))"
    let ?q = "?av ! ?idx"
    let ?new = "filter (\<lambda>r. qid r \<noteq> qid ?q) (deref ?h (remainingQuestions_ref s))"
    have dr: "deref ?ha (remainingQuestions_ref s) = deref ?h (remainingQuestions_ref s)"
      using r2 by (rule deref_append_old)
    from run False have r: "r = Some ?q"
      and s': "s' = s\<lparr>remainingQuestions_ref := length ?ha,
              s_unitCount := (s_unitCount s)(unit ?q := s_unitCount s (unit ?q) + 1),
              s_btlCount := (s_btlCount s)(btLevel ?q \<mapsto> btlCount_or0 (view s) (btLevel ?q) + 1),
              s_rng := ?g,
              s_arrays := ?ha @ [?new]\<rparr>"
      by (simp_all add: pickQuestion_s_def alloc_def da dr Let_def split: prod.splits)
    have v1: "deref (?ha @ [?new]) (selectedQuestions_ref s) = deref ?h (selectedQuestions_ref s)"
      using s2 by (simp add: deref_append_old)
    have v2: "deref (?ha @ [?new]) (length ?ha) = ?new" by (rule deref_append_new)
    have "view s' = (view s)\<lparr>remainingQuestions := filter (\<lambda>r. qid r \<noteq> qid ?q) (remainingQuestions (view s)),
              unitCount := (unitCount (view s))(unit ?q := unitCount (view s) (unit ?q) + 1),
              btlCount := (btlCount (view s))(btLevel ?q \<mapsto> btlCount_or0 (view s) (btLevel ?q) + 1),
              rng := ?g\<rparr>"
      unfolding s' using s2 by (simp add: view_def deref_append_old deref_append_new2)
    moreover have "rng (view s) = s_rng s" by (simp add: view_def)
    ultimately show ?thesis
      using False r by (simp add: pickQuestion_def Let_def split: prod.splits)
  qed
  show "sel_ok h1 s'"
  proof (cases "?av = []")
    case True
    with run have "s' = s\<lparr>s_arrays := ?ha\<rparr>"
      by (auto simp: pickQuestion_s_def alloc_def deref_append_new)
    with ea s1 s2 r2 ne show ?thesis by (simp add: sel_ok_def)
  next
    case False
    with run obtain xs where a: "s_arrays s' = ?ha @ [xs]"
      and b: "selectedQuestions_ref s' = selectedQuestions_ref s"
      and c: "remainingQuestions_ref s' = length ?ha"
      by (auto simp: pickQuestion_s_def alloc_def da Let_def split: prod.splits)
    have "extends h1 (?ha @ [xs])"
      using ea by (rule extends_trans) (simp add: extends_def)
    with a b c s1 s2 show ?thesis by (simp add: sel_ok_def)
  qed
qed

lemma push_s_refine:
  assumes "sel_ok h1 s"
  shows "view (push_s q s) = push q (view s)" and "sel_ok h1 (push_s q s)"
proof -
  from assms have e: "extends h1 (s_arrays s)" and s1: "length h1 \<le> selectedQuestions_ref s"
    and s2: "selectedQuestions_ref s < length (s_arrays s)"
    and r2: "remainingQuestions_ref s < length (s_arrays s)"
    and ne: "selectedQuestions_ref s \<noteq> remainingQuestions_ref s"
    by (simp_all add: sel_ok_def)
  from ne have ne': "remainingQuestions_ref s \<noteq> selectedQuestions_ref s" by simp
  show "view (push_s q s) = push q (view s)"
    using s2 ne' by (simp add: view_def push_s_def push_def deref_push_same deref_push_other)
  show "sel_ok h1 (push_s q s)"
    using e s1 s2 r2 ne by (simp add: sel_ok_def push_s_def extends_push length_push)
qed

lemma pick_fixed_s_refine:
  "sel_ok h1 s \<Longrightarrow> pick_fixed_s unitReqs lvl n s = (r, s') \<Longrightarrow>
   pick_fixed unitReqs lvl n (view s) = (case r of None \<Rightarrow> Inr (view s') | Some e \<Rightarrow> Inl e) \<and>
   sel_ok h1 s'"
proof (induction n arbitrary: s)
  case 0
  then show ?case by simp
next
  case (Suc n)
  obtain o1 s1 where p: "pickQuestion_s unitReqs lvl s = (o1, s1)"
    by (cases "pickQuestion_s unitReqs lvl s") auto
  note pr = pickQuestion_s_refine[OF Suc.prems(1) p]
  show ?case
  proof (cases o1)
    case None
    with Suc.prems(2) p pr show ?thesis by auto
  next
    case (Some q)
    with Suc.prems(2) p have run: "pick_fixed_s unitReqs lvl n (push_s q s1) = (r, s')" by simp
    note ps = push_s_refine[OF pr(2), of q]
    from Suc.IH[OF ps(2) run] pr(1) Some ps(1) show ?thesis by simp
  qed
qed

lemma pick_random_s_refine:
  "sel_ok h1 s \<Longrightarrow> pick_random_s unitReqs randomBTLs n s = (r, s') \<Longrightarrow>
   pick_random unitReqs randomBTLs n (view s)
     = (case r of None \<Rightarrow> Inr (view s') | Some e \<Rightarrow> Inl e) \<and>
   sel_ok h1 s'"
proof (induction n arbitrary: s)
  case 0
  then show ?case by simp
next
  case (Suc n)
  let ?i = "fst (random_index (length randomBTLs) (s_rng s))"
  let ?g = "snd (random_index (length randomBTLs) (s_rng s))"
  obtain o1 s1 where p: "pickQuestion_s unitReqs (randomBTLs ! ?i) (s\<lparr>s_rng := ?g\<rparr>) = (o1, s1)"
    by (cases "pickQuestion_s unitReqs (randomBTLs ! ?i) (s\<lparr>s_rng := ?g\<rparr>)") auto
  have ok0: "sel_ok h1 (s\<lparr>s_rng := ?g\<rparr>)" using Suc.prems(1) by (simp add: sel_ok_rng)
  note pr = pickQuestion_s_refine[OF ok0 p, unfolded view_rng]
  have rv: "rng (view s) = s_rng s" by (simp add: view_def)
  show ?case
  proof (cases o1)
    case None
    with Suc.prems(2) p pr rv show ?thesis
      by (auto simp: Let_def split: prod.splits)
  next
    case (Some q)
    with Suc.prems(2) p have run: "pick_random_s unitReqs randomBTLs n (push_s q s1) = (r, s')"
      by (simp add: Let_def split: prod.splits)
    note ps = push_s_refine[OF pr(2), of q]
    from Suc.IH[OF ps(2) run] pr(1) Some ps(1) rv show ?thesis
      by (simp add: Let_def case_prod_beta)
  qed
qed

lemma process_req_s_refine:
  assumes ix: "index_ok h0 ix h1 (indexed bank)"
    and units: "\<forall>u \<in> set unitReqs. req_unit u = 1 \<or> req_unit u = 2 \<or> req_unit u = 3 \<or>
                  req_unit u = 4 \<or> req_unit u = 5"
    and ok: "sel_ok h1 s"
    and run: "process_req_s ix unitReqs req s = (r, s')"
  shows "process_req bank unitReqs req (view s)
           = (case r of None \<Rightarrow> Inr (view s') | Some e \<Rightarrow> Inl e) \<and>
         sel_ok h1 s'"
proof -
  from ok have e: "extends h1 (s_arrays s)" by (simp add: sel_ok_def)
  have len: "index_length ix (s_arrays s) (req_unit u) l
               = length (availableByUnitAndBTL bank (req_unit u) l)"
    if "u \<in> set unitReqs" for u l
    using index_length_eq[OF ix e] units that by blast
  have rb: "randomBTLs_s ix unitReqs s opts = randomBTLs_of bank unitReqs (view s) opts" for opts
    unfolding randomBTLs_s_def randomBTLs_of_def list_ex_iff
    by (rule filter_cong) (auto simp: len)
  have ac: "availableCount_s ix unitReqs s lvl = availableCount bank unitReqs (view s) lvl" for lvl
    unfolding availableCount_s_def availableCount_def
    by (rule foldl_cong) (auto simp: len)
  show ?thesis
  proof (cases "level req = ''random''")
    case True
    show ?thesis
    proof (cases "options req")
      case None
      with run True ok show ?thesis by (auto simp: process_req_s_def process_req_def)
    next
      case (Some opts)
      show ?thesis
      proof (cases "randomBTLs_of bank unitReqs (view s) opts = []")
        case True
        with run \<open>level req = ''random''\<close> Some ok rb show ?thesis
          by (auto simp: process_req_s_def process_req_def)
      next
        case False
        with run \<open>level req = ''random''\<close> Some rb
        have "pick_random_s unitReqs (randomBTLs_of bank unitReqs (view s) opts) (count req) s
                = (r, s')"
          by (simp add: process_req_s_def)
        from pick_random_s_refine[OF ok this] False \<open>level req = ''random''\<close> Some
        show ?thesis by (simp add: process_req_def)
      qed
    qed
  next
    case False
    show ?thesis
    proof (cases "availableCount bank unitReqs (view s) (level req) < int (count req)")
      case True
      with run False ok ac show ?thesis by (auto simp: process_req_s_def process_req_def)
    next
      case nlt: False
      with run False ac have "pick_fixed_s unitReqs (level req) (count req) s = (r, s')"
        by (simp add: process_req_s_def)
      from pick_fixed_s_refine[OF ok this] nlt False show ?thesis by (simp add: process_req_def)
    qed
  qed
qed

lemma process_reqs_s_refine:
  assumes ix: "index_ok h0 ix h1 (indexed bank)"
    and units: "\<forall>u \<in> set unitReqs. req_unit u = 1 \<or> req_unit u = 2 \<or> req_unit u = 3 \<or>
                  req_unit u = 4 \<or> req_unit u = 5"
  shows "sel_ok h1 s \<Longrightarrow> process_reqs_s ix unitReqs reqs s = (r, s') \<Longrightarrow>
         process_reqs bank unitReqs reqs (view s)
           = (case r of None \<Rightarrow> Inr (view s') | Some e \<Rightarrow> Inl e) \<and>
         sel_ok h1 s'"
proof (induction reqs arbitrary: s)
  case Nil
  then show ?case by simp
next
  case (Cons req reqs)
  obtain o1 s1 where p: "process_req_s ix unitReqs req s = (o1, s1)"
    by (cases "process_req_s ix unitReqs req s") auto
  note pr = process_req_s_refine[OF ix units Cons.prems(1) p]
  show ?case
  proof (cases o1)
    case None
    with Cons.prems(2) p have run: "process_reqs_s ix unitReqs reqs s1 = (r, s')" by simp
    from pr have ok1: "sel_ok h1 s1" by simp
    from Cons.IH[OF ok1 run] pr None show ?thesis by simp
  next
    case (Some e)
    with Cons.prems(2) p pr show ?thesis by auto
  qed
qed

lemma selectQuestions_s_refine:
  assumes ix: "index_ok h0 ix h1 (indexed bank)"
    and units: "\<forall>u \<in> set unitReqs. req_unit u = 1 \<or> req_unit u = 2 \<or> req_unit u = 3 \<or>
                  req_unit u = 4 \<or> req_unit u = 5"
    and b: "b < length h1" and bank: "deref h1 b = bank"
    and run: "selectQuestions_s b ix btlReqs unitReqs g h1 = (r, h2)"
  shows "selectQuestions bank btlReqs unitReqs g
           = (case r of Inl e \<Rightarrow> Inl e | Inr sel \<Rightarrow> Inr (deref h2 sel))"
proof -
  let ?ha = "h1 @ [[]]"
  let ?hb = "?ha @ [bank]"
  let ?s0 = "\<lparr>selectedQuestions_ref = length h1, remainingQuestions_ref = length ?ha,
                s_unitCount = (\<lambda>u. 0), s_btlCount = Map.empty, s_rng = g, s_arrays = ?hb\<rparr>"
  have db: "deref ?ha b = bank" using b bank by (simp add: deref_append_old)
  have "extends h1 ?ha" "extends ?ha ?hb" by (simp_all add: extends_def)
  then have "extends h1 ?hb" by (rule extends_trans)
  then have ok0: "sel_ok h1 ?s0" by (simp add: sel_ok_def)
  have "deref ?hb (length h1) = []" by (simp add: deref_def nth_append)
  moreover have "deref ?hb (length ?ha) = bank" by (rule deref_append_new)
  ultimately have v0: "view ?s0 = init_state bank g"
    by (simp add: view_def init_state_def)
  obtain o1 s1 where p: "process_reqs_s ix unitReqs btlReqs ?s0 = (o1, s1)"
    by (cases "process_reqs_s ix unitReqs btlReqs ?s0") auto
  note pr = process_reqs_s_refine[OF ix units ok0 p, unfolded v0]
  from run p have r: "(r, h2) = (case o1 of
        Some e \<Rightarrow> (Inl e, s_arrays s1)
      | None \<Rightarrow> (case validate_minimums unitReqs (view s1) of
                   Some e \<Rightarrow> (Inl e, s_arrays s1)
                 | None \<Rightarrow> (Inr (selectedQuestions_ref s1), s_arrays s1)))"
    by (simp add: selectQuestions_s_def alloc_def db)
  show ?thesis
  proof (cases o1)
    case (Some e)
    with r pr show ?thesis by (simp add: selectQuestions_def)
  next
    case None
    show ?thesis
    proof (cases "validate_minimums unitReqs (view s1)")
      case (Some e)
      with r pr None show ?thesis by (simp add: selectQuestions_def)
    next
      case vn: None
      with r None have "r = Inr (selectedQuestions_ref s1)" "h2 = s_arrays s1" by simp_all
      moreover have "selectedQuestions (view s1) = deref (s_arrays s1) (selectedQuestions_ref s1)"
        by (simp add: view_def)
      ultimately show ?thesis using pr None vn by (simp add: selectQuestions_def)
    qed
  qed
qed

lemma unitRequirements_units:
  assumes "unitRequirements paperType = Inr unitReqs"
  shows "\<forall>u \<in> set unitReqs. req_unit u = 1 \<or> req_unit u = 2 \<or> req_unit u = 3 \<or>
           req_unit u = 4 \<or> req_unit u = 5"
  using assms by (auto simp: unitRequirements_def ureq_def split: if_splits)

lemma btlRequirements_scheme_of:
  "btlRequirements bank =
     (if index_fails bank
      then Inl (TypeError ''availableByUnitAndBTL[unit][q.btLevel].push is not a function'')
      else scheme_of bank)"
  by (simp add: btlRequirements_def scheme_of_def)

lemma generateQuestions_store_refine:
  assumes "allocated st"
  shows "fst (generateQuestions_store paperType g st)
           = fst (generateQuestions paperType g \<lparr>questionBank = bank_of st\<rparr>)"
proof (cases "questionBank_ref st")
  case None
  then show ?thesis
    by (simp add: generateQuestions_store_def generateQuestions_def bank_of_def)
next
  case (Some b)
  let ?h0 = "arrays st"
  let ?bank = "deref ?h0 b"
  from assms Some have b: "b < length ?h0" by (simp add: allocated_def)
  from Some have bo: "bank_of st = Some ?bank" by (simp add: bank_of_def)
  show ?thesis
  proof (cases "length ?bank < 6")
    case True
    with Some bo show ?thesis
      by (simp add: generateQuestions_store_def generateQuestions_def)
  next
    case False
    obtain o1 ix h1 where iu: "index_units [1, 2, 3, 4, 5] b Map.empty ?h0 = (o1, ix, h1)"
      using prod_cases3 by blast
    note ib = index_build[OF b iu]
    show ?thesis
    proof (cases "index_fails ?bank")
      case True
      with ib have "o1 = Some (TypeError ''availableByUnitAndBTL[unit][q.btLevel].push is not a function'')"
        by simp
      with Some bo False iu True show ?thesis
        by (simp add: generateQuestions_store_def generateQuestions_def btlRequirements_scheme_of)
    next
      case nf: False
      with ib have o1: "o1 = None" and ok: "index_ok ?h0 ix h1 (indexed ?bank)" by simp_all
      from ok have e1: "extends ?h0 h1" by (simp add: index_ok_def)
      from extends_deref[OF e1 b] have d1: "deref h1 b = ?bank" .
      from e1 b have b1: "b < length h1" by (simp add: extends_def)
      show ?thesis
      proof (cases "scheme_of ?bank")
        case (Inl e)
        with Some bo False iu o1 nf d1 show ?thesis
          by (simp add: generateQuestions_store_def generateQuestions_def btlRequirements_scheme_of)
      next
        case (Inr btlReqs)
        show ?thesis
        proof (cases "unitRequirements paperType")
          case (Inl e)
          with Some bo False iu o1 nf d1 Inr show ?thesis
            by (simp add: generateQuestions_store_def generateQuestions_def btlRequirements_scheme_of)
        next
          case ur: (Inr unitReqs)
          obtain r h2 where sq: "selectQuestions_s b ix btlReqs unitReqs g h1 = (r, h2)"
            by (cases "selectQuestions_s b ix btlReqs unitReqs g h1") auto
          note sr = selectQuestions_s_refine[OF ok unitRequirements_units[OF ur] b1 d1 sq]
          from Some bo False iu o1 nf d1 Inr ur sq sr show ?thesis
            by (auto simp: generateQuestions_store_def generateQuestions_def
                btlRequirements_scheme_of split: sum.splits)
        qed
      qed
    qed
  qed
qed

text \<open>
  C8. \<open>generateQuestions\<close> leaves the bank as it found it, whether it returns or throws,
  and also when there is no bank: the variable \<open>questionBank\<close> holds what it held, and
  the array it holds, like every array that was there before the call, holds the same
  questions in the same order. The arrays that the call creates and pushes onto, the
  copy \<open>[...questionBank]\<close> among them, are other arrays.
\<close>

theorem generateQuestions_store_keeps_bank:
  assumes "allocated st"
  shows "bank_of (snd (generateQuestions_store paperType g st)) = bank_of st \<and>
         questionBank_ref (snd (generateQuestions_store paperType g st)) = questionBank_ref st \<and>
         take (length (arrays st)) (arrays (snd (generateQuestions_store paperType g st))) = arrays st"
proof -
  let ?st' = "snd (generateQuestions_store paperType g st)"
  from generateQuestions_store_frame[of paperType g st]
  have q: "questionBank_ref ?st' = questionBank_ref st" and e: "extends (arrays st) (arrays ?st')"
    by simp_all
  have "bank_of ?st' = bank_of st"
  proof (cases "questionBank_ref st")
    case None
    with q show ?thesis by (simp add: bank_of_def)
  next
    case (Some b)
    with assms have "b < length (arrays st)" by (simp add: allocated_def)
    from extends_deref[OF e this] Some q show ?thesis by (simp add: bank_of_def)
  qed
  with q e show ?thesis by (simp add: extends_def)
qed

theorem generateQuestions_store_keeps_bank_witness:
  "allocated example_store \<and>
   fst (generateQuestions_store ''mid1'' [] example_store) = Inr example_mid1 \<and>
   bank_of (snd (generateQuestions_store ''mid1'' [] example_store)) = Some example_bank \<and>
   questionBank_ref (snd (generateQuestions_store ''mid1'' [] example_store)) = Some 0 \<and>
   allocated constructor_store \<and>
   fst (generateQuestions_store ''mid1'' [] constructor_store) =
     Inl (TypeError ''availableByUnitAndBTL[unit][q.btLevel].push is not a function'') \<and>
   bank_of (snd (generateQuestions_store ''mid1'' [] constructor_store)) = Some constructor_bank \<and>
   questionBank_ref (snd (generateQuestions_store ''mid1'' [] constructor_store)) = Some 1"
proof -
  have a: "allocated example_store"
    by (simp add: allocated_def example_store_def)
  have b: "bank_of example_store = Some example_bank"
    by (simp add: bank_of_def example_store_def deref_def)
  have q: "questionBank_ref example_store = Some 0"
    by (simp add: example_store_def)
  have "fst (generateQuestions ''mid1'' [] \<lparr>questionBank = Some example_bank\<rparr>) = Inr example_mid1"
    by code_simp
  with generateQuestions_store_refine[OF a, of "''mid1''" "[]"] b
  have r: "fst (generateQuestions_store ''mid1'' [] example_store) = Inr example_mid1"
    by simp
  have a': "allocated constructor_store"
    by (simp add: allocated_def constructor_store_def)
  have b': "bank_of constructor_store = Some constructor_bank"
    by (simp add: bank_of_def constructor_store_def deref_def)
  have q': "questionBank_ref constructor_store = Some 1"
    by (simp add: constructor_store_def)
  have "fst (generateQuestions ''mid1'' [] \<lparr>questionBank = Some constructor_bank\<rparr>) =
      Inl (TypeError ''availableByUnitAndBTL[unit][q.btLevel].push is not a function'')"
    by code_simp
  with generateQuestions_store_refine[OF a', of "''mid1''" "[]"] b'
  have r': "fst (generateQuestions_store ''mid1'' [] constructor_store) =
      Inl (TypeError ''availableByUnitAndBTL[unit][q.btLevel].push is not a function'')"
    by simp
  from generateQuestions_store_keeps_bank[OF a, of "''mid1''" "[]"]
    generateQuestions_store_keeps_bank[OF a', of "''mid1''" "[]"] a b q r a' b' q' r'
  show ?thesis by simp
qed

end
